theory Spec2Isabelle
  imports Complex_Main "HOL-Library.Char_ord" "HOL-Library.List_Lexorder"
begin

section \<open>Colorado trail recommender: the pipeline of \<open>src/cleaning.py\<close>\<close>

text \<open>
  The module is a batch script over pandas data frames. A data frame is modelled as the
  list of its rows in row order, each row paired with its index label; the columns the
  code names are the fields of a record. Python exceptions are values of \<open>error\<close>.
  Floating-point numbers are idealised as reals.
\<close>

datatype error = KeyError string | IndexError | ValueError | TypeError

text \<open>
  An index label: a position of the default \<open>RangeIndex\<close> that \<open>pd.DataFrame(list(...))\<close>
  creates, or a trail name after \<open>set_index('name')\<close>.
\<close>

datatype label = Pos nat | Name string

subsection \<open>Raw trail records\<close>

text \<open>
  A value of the \<open>reviews\<close> dictionary: the code tests \<open>type(v) == list\<close> and reads
  \<open>v[2]\<close> as the review body; any other value is skipped.
\<close>

datatype review_entry = Fields "string list" | Other

text \<open>
  One scraped record. Text columns may be missing (\<open>NaN\<close> in pandas, \<open>None\<close> here); the
  reviews container may be \<open>None\<close>. The numeric attribute columns whose names the code never
  mentions (elevation, distance, average rating) are the list \<open>numeric\<close>. The column
  \<open>_id\<close>, which \<open>clean_df\<close> drops first, is left out.
\<close>

record trail =
  name :: string
  url :: string
  tags :: "string option"
  main_description :: "string option"
  secondary_description :: "string option"
  reviews :: "(string \<times> review_entry) list option"
  location :: string
  difficulty :: string
  hike_type :: string
  number_ratings :: real
  numeric :: "real list"

type_synonym 'r frame = "(label \<times> 'r) list"

text \<open>\<open>mongo_to_dataframe\<close>: the records in order, under a fresh \<open>RangeIndex\<close>.\<close>

definition mongo_to_dataframe :: "trail list \<Rightarrow> trail frame" where
  "mongo_to_dataframe recs = zip (map Pos [0..<length recs]) recs"

subsection \<open>\<open>clean_df\<close>\<close>

text \<open>
  \<open>Index.duplicated()\<close> and \<open>DataFrame.duplicated()\<close> with the default \<open>keep='first'\<close>:
  an entry is marked when an equal entry occurs before it.
\<close>

fun duplicated_from :: "'a list \<Rightarrow> 'a list \<Rightarrow> bool list" where
  "duplicated_from seen [] = []"
| "duplicated_from seen (x # xs) = (x \<in> set seen) # duplicated_from (x # seen) xs"

definition duplicated :: "'a list \<Rightarrow> bool list" where
  "duplicated xs = duplicated_from [] xs"

text \<open>\<open>drop_duplicates(subset='url')\<close>: the rows whose url has not occurred before.\<close>

definition drop_duplicates_url :: "trail frame \<Rightarrow> trail frame" where
  "drop_duplicates_url df =
     map snd (filter (\<lambda>(d, r). \<not> d) (zip (duplicated (map (url \<circ> snd) df)) df))"

text \<open>\<open>idx.where(cond, other)\<close>: the entry of \<open>idx\<close> where \<open>cond\<close> holds, else that of \<open>other\<close>.\<close>

definition index_where :: "'a list \<Rightarrow> bool list \<Rightarrow> 'a list \<Rightarrow> 'a list" where
  "index_where idx cond other =
     map (\<lambda>(c, x, y). if c then x else y) (zip cond (zip idx other))"

text \<open>
  One line of the chain:
  \<open>index = index.where(~index.duplicated(), index + sfx)\<close>.
\<close>

definition suffix_duplicated :: "string \<Rightarrow> string list \<Rightarrow> string list" where
  "suffix_duplicated sfx idx =
     index_where idx (map Not (duplicated idx)) (map (\<lambda>x. x @ sfx) idx)"

text \<open>
  \<open>clean_df\<close> builds a new frame (\<open>drop_duplicates\<close> returns a copy, which the later
  in-place steps change); the frame passed in loses only its \<open>_id\<close> column.
\<close>

definition clean_df :: "trail frame \<Rightarrow> trail frame" where
  "clean_df raw_df =
     (let df = drop_duplicates_url raw_df;
          idx = map (name \<circ> snd) df;
          idx = suffix_duplicated ''_2'' idx;
          idx = suffix_duplicated ''_3'' idx;
          idx = suffix_duplicated ''_4'' idx
      in zip (map Name idx) (map snd df))"

subsection \<open>Corpus assembly\<close>

text \<open>\<open>str.strip()\<close> removes leading and trailing whitespace.\<close>

definition is_space :: "char \<Rightarrow> bool" where
  "is_space c = (c \<in> set [CHR '' '', CHR 0x09, CHR 0x0A, CHR 0x0B, CHR 0x0C, CHR 0x0D])"

definition strip :: "string \<Rightarrow> string" where
  "strip s = rev (dropWhile is_space (rev (dropWhile is_space s)))"

text \<open>\<open>s.replace(a, ' ')\<close> for a one-character \<open>a\<close>.\<close>

definition replace_char :: "char \<Rightarrow> string \<Rightarrow> string" where
  "replace_char a s = map (\<lambda>c. if c = a then CHR '' '' else c) s"

text \<open>
  The inner loop of \<open>get_review_corpus\<close> over \<open>data[i].items()\<close>; \<open>v[2]\<close> raises
  \<open>IndexError\<close> on a list of fewer than three fields.
\<close>

fun review_document :: "string \<Rightarrow> (string \<times> review_entry) list \<Rightarrow> error + string" where
  "review_document document [] = Inr document"
| "review_document document ((k, Other) # kvs) = review_document document kvs"
| "review_document document ((k, Fields v) # kvs) =
     (if length v < 3 then Inl IndexError
      else review_document
             (document @ replace_char (CHR 0x0D) (replace_char (CHR 0x0A) (strip (v ! 2))) @ '' '')
             kvs)"

text \<open>\<open>get_review_corpus\<close>: the list of row names and the list of documents.\<close>

fun get_review_corpus ::
  "(label \<times> (string \<times> review_entry) list option) list \<Rightarrow> error + (label list \<times> string list)"
where
  "get_review_corpus [] = Inr ([], [])"
| "get_review_corpus ((row_name, d) # data) =
     (case (case d of None \<Rightarrow> Inr [] | Some kvs \<Rightarrow> review_document [] kvs) of
        Inl e \<Rightarrow> Inl e
      | Inr document \<Rightarrow>
          (case get_review_corpus data of
             Inl e \<Rightarrow> Inl e
           | Inr (rows, docs) \<Rightarrow> Inr (row_name # rows, document # docs)))"

text \<open>
  \<open>make_reviews_df\<close>: \<open>pd.DataFrame(documents, index=index)\<close> raises \<open>ValueError\<close> when the
  two lengths differ.
\<close>

definition make_reviews_df :: "label list \<Rightarrow> string list \<Rightarrow> error + string frame" where
  "make_reviews_df index documents =
     (if length index = length documents then Inr (zip index documents) else Inl ValueError)"

record corpus_row =
  c_url :: string
  c_tags :: string
  c_main_description :: string
  c_secondary_description :: string
  review_string :: string
  c_all :: string

text \<open>
  \<open>df_corpus['review_string'] = review_df['reviews']\<close> aligns the series with the frame
  by index label: equal indexes are taken as they are; otherwise the series is reindexed,
  which raises \<open>ValueError\<close> on duplicate labels and leaves \<open>NaN\<close> where a label is missing.
\<close>

definition align_series :: "label list \<Rightarrow> string frame \<Rightarrow> error + string option list" where
  "align_series idx ser =
     (if idx = map fst ser then Inr (map (Some \<circ> snd) ser)
      else if \<not> distinct (map fst ser) then Inl ValueError
      else Inr (map (map_of ser) idx))"

text \<open>\<open>fillna('')\<close> on one cell.\<close>

definition fillna :: "string option \<Rightarrow> string" where
  "fillna v = (case v of None \<Rightarrow> [] | Some s \<Rightarrow> s)"

definition make_corpus_df :: "trail frame \<Rightarrow> string frame \<Rightarrow> error + corpus_row frame" where
  "make_corpus_df raw_df review_df =
     (case align_series (map fst raw_df) review_df of
        Inl e \<Rightarrow> Inl e
      | Inr revs \<Rightarrow>
          Inr (map (\<lambda>((l, r), rv).
                 (l, \<lparr> c_url = url r,
                       c_tags = fillna (tags r),
                       c_main_description = fillna (main_description r),
                       c_secondary_description = fillna (secondary_description r),
                       review_string = fillna rv,
                       c_all = fillna (tags r) @ '' '' @ fillna (main_description r) @ '' ''
                               @ fillna (secondary_description r) @ '' '' @ fillna rv \<rparr>))
               (zip raw_df revs)))"

text \<open>
  \<open>make_hike_df\<close> drops the four text columns; the other columns stay, \<open>name\<close> among
  them as long as the table is not indexed by it.
\<close>

record hike_row =
  h_name :: string
  h_url :: string
  h_location :: string
  h_difficulty :: string
  h_hike_type :: string
  h_number_ratings :: real
  h_numeric :: "real list"

definition make_hike_df :: "trail frame \<Rightarrow> hike_row frame" where
  "make_hike_df raw_df =
     map (\<lambda>(l, r). (l, \<lparr> h_name = name r, h_url = url r, h_location = location r,
                          h_difficulty = difficulty r, h_hike_type = hike_type r,
                          h_number_ratings = number_ratings r, h_numeric = numeric r \<rparr>))
         raw_df"

text \<open>
  \<open>hike_url_dict\<close>: \<open>{raw_df.index[i]: raw_df['url'][i] for i in range(len(raw_df))}\<close>; a
  later row overwrites an earlier one with the same label.
\<close>

definition hike_url_dict :: "trail frame \<Rightarrow> (label \<rightharpoonup> string)" where
  "hike_url_dict raw_df = map_of (rev (map (\<lambda>(l, r). (l, url r)) raw_df))"

text \<open>
  Lines 224 to 230 of the script. \<open>df_clean\<close> is computed and returned here, but every
  later table is built from \<open>df_mongo\<close>, as the script has it.
\<close>

record corpus_tables =
  df_mongo :: "trail frame"
  df_clean :: "trail frame"
  url_dict :: "label \<rightharpoonup> string"
  df_reviews :: "string frame"
  df_corpus :: "corpus_row frame"
  df_hike :: "hike_row frame"

definition build_corpus :: "trail list \<Rightarrow> error + corpus_tables" where
  "build_corpus recs =
     (let mongo = mongo_to_dataframe recs;
          clean = clean_df mongo;
          urls = hike_url_dict mongo
      in case get_review_corpus (map (\<lambda>(l, r). (l, reviews r)) mongo) of
           Inl e \<Rightarrow> Inl e
         | Inr (rows, docs) \<Rightarrow>
             (case make_reviews_df rows docs of
                Inl e \<Rightarrow> Inl e
              | Inr revs \<Rightarrow>
                  (case make_corpus_df mongo revs of
                     Inl e \<Rightarrow> Inl e
                   | Inr corpus \<Rightarrow>
                       Inr \<lparr> df_mongo = mongo, df_clean = clean, url_dict = urls,
                             df_reviews = revs, df_corpus = corpus,
                             df_hike = make_hike_df mongo \<rparr>)))"


subsection \<open>Topic model tables\<close>

text \<open>
  \<open>ndarray.round(2)\<close>: scale by 100, round to the nearest integer with halves going to
  the even neighbour, scale back.
\<close>

definition round2 :: "real \<Rightarrow> real" where
  "round2 x =
     (let y = x * 100; f = \<lfloor>y\<rfloor>; d = y - of_int f
      in of_int (if d < 1 / 2 then f
                 else if 1 / 2 < d then f + 1
                 else if even f then f else f + 1) / 100)"

text \<open>\<open>str(i)\<close> for a non-negative integer.\<close>

function str_nat :: "nat \<Rightarrow> string" where
  "str_nat n =
     (if n < 10 then [''0123456789'' ! n]
      else str_nat (n div 10) @ [''0123456789'' ! (n mod 10)])"
  by pat_completeness auto
termination
  by (relation "measure id") auto

declare str_nat.simps [simp del]

text \<open>
  Modelled from the spec: \<open>document_topics\<close> lives in \<open>src/nlp_pipeline.py\<close>, which is not
  among the sources. The spec has it compute, for each document, the argmax column of its
  row in the document-topic matrix; \<open>nmf_topic_modeling\<close> adds 1 to its result, so it counts
  columns from 0. As \<open>numpy.argmax\<close> does, the first of several maxima is taken.
\<close>

fun argmax :: "real list \<Rightarrow> nat" where
  "argmax [] = 0"
| "argmax [x] = 0"
| "argmax (x # y # ys) =
     (let j = argmax (y # ys) in if x < (y # ys) ! j then Suc j else 0)"

definition document_topics :: "real list list \<Rightarrow> nat list" where
  "document_topics W = map argmax W"

record topic_row =
  loadings :: "real list"
  majority_topic :: nat

record topic_table =
  w_columns :: "string list"
  w_rows :: "topic_row frame"

record term_table =
  h_index :: "string list"
  h_columns :: "string list"
  h_values :: "real list list"

text \<open>
  \<open>nmf_topic_modeling\<close>. The factorisation \<open>get_nmf\<close> and the helpers \<open>get_topic_words\<close>
  and \<open>print_topics\<close> are in the absent \<open>src/nlp_pipeline.py\<close>: the factors \<open>W\<close> and \<open>H\<close>
  are taken as given, and the table \<open>df_pretty\<close>, which only those helpers make, is not
  part of the result here. A column assignment and the \<open>DataFrame\<close> constructor raise
  \<open>ValueError\<close> when lengths or shapes do not fit.
\<close>

definition nmf_topic_modeling ::
  "'r frame \<Rightarrow> real list list \<Rightarrow> real list list \<Rightarrow> string list \<Rightarrow> nat
     \<Rightarrow> error + (topic_table \<times> term_table)"
where
  "nmf_topic_modeling corpus W H tfidf_feats n_topics =
     (let copy_maincorpus = corpus in
      if length (document_topics W) \<noteq> length copy_maincorpus then Inl ValueError
      else
        let cols = map (\<lambda>i. ''topic_'' @ str_nat i) [1..<n_topics + 1] in
        if \<not> (length W = length copy_maincorpus \<and> list_all (\<lambda>row. length row = length cols) W)
        then Inl ValueError
        else
          let W_df = zip (map fst copy_maincorpus)
                       (map (\<lambda>(row, t). \<lparr> loadings = map round2 row, majority_topic = t \<rparr>)
                            (zip W (document_topics W)));
              W_df = map (\<lambda>(l, r). (l, r\<lparr> majority_topic := majority_topic r + 1 \<rparr>)) W_df
          in
          if \<not> (length H = length cols \<and> list_all (\<lambda>row. length row = length tfidf_feats) H)
          then Inl ValueError
          else Inr (\<lparr> w_columns = cols, w_rows = W_df \<rparr>,
                    \<lparr> h_index = cols, h_columns = tfidf_feats, h_values = map (map round2) H \<rparr>))"

subsection \<open>Feature fusion\<close>

text \<open>
  \<open>df_hike.merge(W_df, left_index=True, right_index=True)\<close>: an inner join on the index
  labels, in the order of the left table; a label on one side only gives no row.
\<close>

definition merge :: "'a frame \<Rightarrow> 'b frame \<Rightarrow> ('a \<times> 'b) frame" where
  "merge left right =
     concat (map (\<lambda>(l, a). map (\<lambda>(l', b). (l, (a, b))) (filter (\<lambda>(l', b). l' = l) right))
                 left)"

text \<open>
  The merged row after \<open>.drop(['url', 'majority_topic', 'location', 'number_ratings'])\<close>.
\<close>

record merged_row =
  m_name :: string
  m_difficulty :: string
  m_hike_type :: string
  m_numeric :: "real list"
  m_loadings :: "real list"

definition merge_and_drop :: "hike_row frame \<Rightarrow> topic_table \<Rightarrow> merged_row frame" where
  "merge_and_drop hike W_df =
     map (\<lambda>(l, (h, t)).
            (l, \<lparr> m_name = h_name h, m_difficulty = h_difficulty h,
                  m_hike_type = h_hike_type h, m_numeric = h_numeric h,
                  m_loadings = loadings t \<rparr>))
         (merge hike (w_rows W_df))"

text \<open>
  \<open>pd.get_dummies(..., drop_first=True)\<close> on one column: the categories are the distinct
  values in sorted order, the first is dropped, and each other category gives a 0/1
  column named \<open>column_category\<close>.
\<close>

definition categories :: "string list \<Rightarrow> string list" where
  "categories vals = tl (sort (remdups vals))"

definition dummies :: "string list \<Rightarrow> string \<Rightarrow> real list" where
  "dummies cats v = map (\<lambda>c. if v = c then 1 else 0) cats"

text \<open>\<open>rename(columns=cols_to_rename)\<close> on one column name.\<close>

definition rename_col :: "string \<Rightarrow> string" where
  "rename_col c =
     (if c = ''hike_type_Out & Back'' then ''out_and_back''
      else if c = ''hike_type_Point to Point'' then ''point_to_point''
      else c)"

record fused_row =
  f_name :: string
  f_numeric :: "real list"
  f_loadings :: "real list"
  f_difficulty :: "real list"
  f_hike_type :: "real list"

record fused_table =
  topic_cols :: "string list"
  difficulty_cols :: "string list"
  hike_type_cols :: "string list"
  f_rows :: "fused_row frame"

text \<open>
  Lines 240 to 244: the table \<open>df_merged\<close>. The untouched columns come first, then the
  dummy columns of \<open>difficulty\<close>, then those of \<open>hike_type\<close>.
\<close>

definition fuse :: "hike_row frame \<Rightarrow> topic_table \<Rightarrow> fused_table" where
  "fuse hike W_df =
     (let df_merged = merge_and_drop hike W_df;
          dcats = categories (map (m_difficulty \<circ> snd) df_merged);
          tcats = categories (map (m_hike_type \<circ> snd) df_merged)
      in \<lparr> topic_cols = w_columns W_df,
           difficulty_cols = map rename_col (map (\<lambda>c. ''difficulty_'' @ c) dcats),
           hike_type_cols = map rename_col (map (\<lambda>c. ''hike_type_'' @ c) tcats),
           f_rows = map (\<lambda>(l, m).
                      (l, \<lparr> f_name = m_name m, f_numeric = m_numeric m,
                            f_loadings = m_loadings m,
                            f_difficulty = dummies dcats (m_difficulty m),
                            f_hike_type = dummies tcats (m_hike_type m) \<rparr>))
                    df_merged \<rparr>)"

text \<open>
  Lines 238 to 244 together: the topic tables are built from the factors, and the
  document-topic table \<open>W_df\<close> among them is what the join receives.
\<close>

definition fuse_topics ::
  "'r frame \<Rightarrow> real list list \<Rightarrow> real list list \<Rightarrow> string list \<Rightarrow> nat \<Rightarrow> hike_row frame
     \<Rightarrow> error + fused_table"
where
  "fuse_topics df_trunc W H tfidf_feats n_topics hike =
     (case nmf_topic_modeling df_trunc W H tfidf_feats n_topics of
        Inl e \<Rightarrow> Inl e
      | Inr (W_df, H_df) \<Rightarrow> Inr (fuse hike W_df))"


subsection \<open>Similarity engine: the two query functions\<close>

text \<open>
  The query functions read module-level names and write to standard output. The state
  holds what they read: \<open>similarity_df\<close> (index labels and rows of the square matrix),
  the index of \<open>df_merged\<close>, the name list \<open>hikes\<close>, the scaled matrix \<open>X\<close> with its
  column count \<open>X.shape[1]\<close>, and the dictionary of urls that the script binds to the
  name \<open>hike_url_dict\<close>; and \<open>stdout\<close>, one entry for each \<open>print\<close> call. A function
  returns the state it leaves behind and either the raised exception or \<open>None\<close>.
\<close>

record sim_table =
  sim_index :: "string list"
  sim_values :: "real list list"

record pipeline =
  similarity_df :: sim_table
  df_merged_index :: "string list"
  hikes :: "string list"
  X :: "real list list"
  X_shape1 :: nat
  hike_urls :: "string \<rightharpoonup> string"
  stdout :: "string list"

definition py_print :: "pipeline \<Rightarrow> string \<Rightarrow> pipeline" where
  "py_print s line = s\<lparr> stdout := stdout s @ [line] \<rparr>"

text \<open>
  \<open>similarity_df.loc[label]\<close>: \<open>KeyError\<close> for an unknown label, the row for a label that
  occurs once. For a repeated label pandas returns a frame instead of a row; the function
  is not written for that, and the model stops there with \<open>TypeError\<close>.
\<close>

definition loc :: "sim_table \<Rightarrow> string \<Rightarrow> error + real list" where
  "loc df l =
     (case filter (\<lambda>(k, row). k = l) (zip (sim_index df) (sim_values df)) of
        [] \<Rightarrow> Inl (KeyError l)
      | [(k, row)] \<Rightarrow> Inr row
      | _ \<Rightarrow> Inl TypeError)"

text \<open>
  \<open>np.argsort\<close>: the positions in ascending order of their values. numpy does not promise
  an order among equal values (the default kind is an introsort); the model takes the
  stable one, equal values in ascending position, which is what numpy's insertion sort
  gives on arrays of fewer than 17 entries.
\<close>

definition argsort :: "real list \<Rightarrow> nat list" where
  "argsort xs = sort_key (\<lambda>i. xs ! i) [0..<length xs]"

text \<open>A slice \<open>xs[a:b]\<close> with Python's treatment of negative and oversized bounds.\<close>

definition py_slice :: "'a list \<Rightarrow> int \<Rightarrow> int \<Rightarrow> 'a list" where
  "py_slice xs a b =
     (let n = int (length xs);
          lo = (if a < 0 then max 0 (n + a) else min a n);
          hi = (if b < 0 then max 0 (n + b) else min b n)
      in take (nat (hi - lo)) (drop (nat lo) xs))"

text \<open>\<open>np.argsort(v)[::-1][a:b]\<close>, the expression both query functions rank with.\<close>

definition argsort_rev_slice :: "real list \<Rightarrow> int \<Rightarrow> int \<Rightarrow> nat list" where
  "argsort_rev_slice v a b = py_slice (rev (argsort v)) a b"

text \<open>\<open>[hikes[i] for i in idx]\<close>; \<open>hikes[i]\<close> raises \<open>IndexError\<close> out of range.\<close>

fun getitems :: "string list \<Rightarrow> nat list \<Rightarrow> error + string list" where
  "getitems hs [] = Inr []"
| "getitems hs (i # idx) =
     (if length hs \<le> i then Inl IndexError
      else case getitems hs idx of Inl e \<Rightarrow> Inl e | Inr recs \<Rightarrow> Inr (hs ! i # recs))"

text \<open>
  The closing loop of both functions:
  \<open>for i, rec in zip(idx, recs): print(f"{hikes[i]}: {hike_url_dict[rec]}")\<close>.
  What was printed before an exception stays printed.
\<close>

fun print_recs :: "pipeline \<Rightarrow> string list \<Rightarrow> (nat \<times> string) list \<Rightarrow> pipeline \<times> (error + unit)" where
  "print_recs s hs [] = (s, Inr ())"
| "print_recs s hs ((i, rec) # rest) =
     (if length hs \<le> i then (s, Inl IndexError)
      else case hike_urls s rec of
             None \<Rightarrow> (s, Inl (KeyError rec))
           | Some u \<Rightarrow> print_recs (py_print s (hs ! i @ '': '' @ u)) hs rest)"

definition newline :: string where
  "newline = [CHR 0x0A]"

definition get_hike_recommendations :: "pipeline \<Rightarrow> string \<Rightarrow> int \<Rightarrow> pipeline \<times> (error + unit)" where
  "get_hike_recommendations s baseline_hike n_hikes =
     (case loc (similarity_df s) baseline_hike of
        Inl e \<Rightarrow> (s, Inl e)
      | Inr sim_series \<Rightarrow>
          (let idx = argsort_rev_slice sim_series 1 (n_hikes + 1);
               hs = df_merged_index s
           in case getitems hs idx of
                Inl e \<Rightarrow> (s, Inl e)
              | Inr recs \<Rightarrow>
                  print_recs
                    (py_print s (''Because you enjoyed '' @ baseline_hike
                                 @ '', you may like these:'' @ newline))
                    hs (zip idx recs)))"

text \<open>\<open>np.where(hikes == i)[0]\<close>: the positions at which the name occurs.\<close>

definition np_where :: "string list \<Rightarrow> string \<Rightarrow> nat list" where
  "np_where hs i = filter (\<lambda>k. hs ! k = i) [0..<length hs]"

text \<open>
  The loop of \<open>_get_user_profile\<close>. \<open>[0]\<close> on an empty match array and \<open>X[idx]\<close> past the
  last row raise \<open>IndexError\<close>. \<open>X\<close> is a two-dimensional array, so each of its rows has
  \<open>X.shape[1]\<close> entries and \<open>+=\<close> adds entry by entry.
\<close>

fun user_profile_loop :: "pipeline \<Rightarrow> real list \<Rightarrow> string list \<Rightarrow> error + real list" where
  "user_profile_loop s user_profile [] = Inr user_profile"
| "user_profile_loop s user_profile (i # items) =
     (case np_where (hikes s) i of
        [] \<Rightarrow> Inl IndexError
      | idx # _ \<Rightarrow>
          if length (X s) \<le> idx then Inl IndexError
          else user_profile_loop s (map2 (+) user_profile (X s ! idx)) items)"

definition get_user_profile :: "pipeline \<Rightarrow> string list \<Rightarrow> error + real list" where
  "get_user_profile s items = user_profile_loop s (replicate (X_shape1 s) 0) items"

text \<open>
  \<open>sklearn.metrics.pairwise.cosine_similarity\<close> of two rows, by the formula the library
  documents: the dot product over the product of the Euclidean norms. Where a norm is 0
  the quotient has no value; division in HOL is total and gives 0 there.
\<close>

definition dot :: "real list \<Rightarrow> real list \<Rightarrow> real" where
  "dot x y = sum_list (map2 (*) x y)"

definition norm2 :: "real list \<Rightarrow> real" where
  "norm2 x = sqrt (dot x x)"

definition cosine_similarity :: "real list \<Rightarrow> real list \<Rightarrow> real" where
  "cosine_similarity x y = dot x y / (norm2 x * norm2 y)"

text \<open>\<open>sep.join(items)\<close>.\<close>

fun join :: "string \<Rightarrow> string list \<Rightarrow> string" where
  "join sep [] = []"
| "join sep [x] = x"
| "join sep (x # y # ys) = x @ sep @ join sep (y # ys)"

definition get_user_recommendation :: "pipeline \<Rightarrow> string list \<Rightarrow> int \<Rightarrow> pipeline \<times> (error + unit)" where
  "get_user_recommendation s items n =
     (case get_user_profile s items of
        Inl e \<Rightarrow> (s, Inl e)
      | Inr user_prof \<Rightarrow>
          (let user_similarity = map (\<lambda>row. cosine_similarity row user_prof) (X s);
               idx = argsort_rev_slice user_similarity (int (length items))
                       (n + int (length items))
           in case getitems (hikes s) idx of
                Inl e \<Rightarrow> (s, Inl e)
              | Inr recs \<Rightarrow>
                  print_recs
                    (py_print s (''Because you enjoyed '' @ join '', '' items
                                 @ '', you may like these:'' @ newline))
                    (hikes s) (zip idx recs)))"

subsection \<open>Notions used to state the properties\<close>

text \<open>
  Ascending in the value, and ascending in the position among equal values: the order in
  which \<open>argsort\<close> lists two positions.
\<close>

definition before :: "real list \<Rightarrow> nat \<Rightarrow> nat \<Rightarrow> bool" where
  "before v i j \<longleftrightarrow> v ! i < v ! j \<or> (v ! i = v ! j \<and> i < j)"

text \<open>
  The profile in the spec's words: the elementwise sum of the given vectors, each of
  dimension \<open>d\<close>. It is compared below with what the loop of \<open>_get_user_profile\<close> builds.
\<close>

definition elementwise_sum :: "nat \<Rightarrow> real list list \<Rightarrow> real list" where
  "elementwise_sum d vs = map (\<lambda>j. \<Sum>v\<leftarrow>vs. v ! j) [0..<d]"

text \<open>The first position of a name in a list of names that holds it.\<close>

definition position :: "string list \<Rightarrow> string \<Rightarrow> nat" where
  "position hs i = hd (np_where hs i)"


text \<open>The first line either query prints, for the liked name or names.\<close>

definition header :: "string \<Rightarrow> string" where
  "header liked = ''Because you enjoyed '' @ liked @ '', you may like these:'' @ newline"

text \<open>One printed recommendation line for the trail at position \<open>i\<close>.\<close>

definition rec_line :: "pipeline \<Rightarrow> string list \<Rightarrow> nat \<Rightarrow> string" where
  "rec_line s hs i = hs ! i @ '': '' @ the (hike_urls s (hs ! i))"

section \<open>Example inputs\<close>

definition stub_trail :: "string \<Rightarrow> string \<Rightarrow> trail" where
  "stub_trail n u =
     \<lparr> name = n, url = u, tags = None, main_description = None,
       secondary_description = None, reviews = None, location = [], difficulty = ''easy'',
       hike_type = ''Loop'', number_ratings = 0, numeric = [] \<rparr>"

definition five_lakes :: "trail list" where
  "five_lakes = map (stub_trail ''Lake'') [''u1'', ''u2'', ''u3'', ''u4'', ''u5'']"

definition twice_scraped :: "trail list" where
  "twice_scraped = [stub_trail ''Bear Peak'' ''u1'', stub_trail ''Bear Peak'' ''u1'']"

text \<open>A two-document corpus with its factors, and hike tables to fuse with.\<close>

definition ex_corpus :: "string frame" where
  "ex_corpus = [(Pos 0, ''alpine lake''), (Pos 1, ''aspen grove'')]"

definition ex_W :: "real list list" where
  "ex_W = [[123 / 1000, 877 / 1000], [1 / 2, 1 / 2]]"

definition ex_H :: "real list list" where
  "ex_H = [[1], [2]]"

definition ex_W_df :: topic_table where
  "ex_W_df =
     \<lparr> w_columns = [''topic_1'', ''topic_2''],
       w_rows = [(Pos 0, \<lparr> loadings = [12 / 100, 88 / 100], majority_topic = 2 \<rparr>),
                 (Pos 1, \<lparr> loadings = [1 / 2, 1 / 2], majority_topic = 1 \<rparr>)] \<rparr>"

definition ex_H_df :: term_table where
  "ex_H_df =
     \<lparr> h_index = [''topic_1'', ''topic_2''], h_columns = [''lake''],
       h_values = [[1], [2]] \<rparr>"

definition ex_hike_row :: "string \<Rightarrow> string \<Rightarrow> string \<Rightarrow> hike_row" where
  "ex_hike_row n d t =
     \<lparr> h_name = n, h_url = ''u'', h_location = ''Boulder'', h_difficulty = d,
       h_hike_type = t, h_number_ratings = 10, h_numeric = [5280] \<rparr>"

definition ex_hike :: "hike_row frame" where
  "ex_hike =
     [(Pos 0, ex_hike_row ''Blue Lake'' ''hard'' ''Loop''),
      (Pos 1, ex_hike_row ''Aspen Alley'' ''easy'' ''Out & Back'')]"




text \<open>
  Four trails with two scaled features each, their cosine similarity matrix and urls.
\<close>

definition ex_names :: "string list" where
  "ex_names = [''Bear Peak'', ''Royal Arch'', ''Blue Lake'', ''Mount Ida'']"

definition ex_state :: pipeline where
  "ex_state =
     \<lparr> similarity_df =
         \<lparr> sim_index = ex_names,
           sim_values = [[1, 0, 3 / 5, 4 / 5],
                         [0, 1, 4 / 5, 3 / 5],
                         [3 / 5, 4 / 5, 1, 24 / 25],
                         [4 / 5, 3 / 5, 24 / 25, 1]] \<rparr>,
       df_merged_index = ex_names,
       hikes = ex_names,
       X = [[3, 0], [0, 4], [3, 4], [4, 3]],
       X_shape1 = 2,
       hike_urls = [''Bear Peak'' \<mapsto> ''u/bear'', ''Royal Arch'' \<mapsto> ''u/arch'',
                    ''Blue Lake'' \<mapsto> ''u/lake'', ''Mount Ida'' \<mapsto> ''u/ida''],
       stdout = [] \<rparr>"

text \<open>
  Three trails of which the first two have the same feature vector \<open>[1, 0]\<close>, the third
  \<open>[1, sqrt 3]\<close>: equal rows give equal similarities.
\<close>

definition tied_names :: "string list" where
  "tied_names = [''Bear Peak'', ''Royal Arch'', ''Blue Lake'']"

definition tied_state :: pipeline where
  "tied_state =
     \<lparr> similarity_df =
         \<lparr> sim_index = tied_names,
           sim_values = [[1, 1, 1 / 2],
                         [1, 1, 1 / 2],
                         [1 / 2, 1 / 2, 1]] \<rparr>,
       df_merged_index = tied_names,
       hikes = tied_names,
       X = [[1, 0], [1, 0], [1, sqrt 3]],
       X_shape1 = 2,
       hike_urls = [''Bear Peak'' \<mapsto> ''u/bear'', ''Royal Arch'' \<mapsto> ''u/arch'',
                    ''Blue Lake'' \<mapsto> ''u/lake''],
       stdout = [] \<rparr>"

section \<open>Properties\<close>

subsection \<open>Corpus Builder\<close>

lemma get_review_corpus_rows:
  "get_review_corpus data = Inr (rows, docs) \<Longrightarrow>
     rows = map fst data \<and> length docs = length data"
proof (induction data arbitrary: rows docs)
  case Nil
  then show ?case by simp
next
  case (Cons a data)
  obtain l d where a: "a = (l, d)" by (cases a)
  from Cons.prems a show ?case
    by (auto split: sum.splits option.splits prod.splits dest: Cons.IH)
qed




text \<open>The chain does tell four records of one name apart.\<close>

lemma clean_df_four_way:
  "map fst (clean_df (mongo_to_dataframe (take 4 five_lakes))) =
     [Name ''Lake'', Name ''Lake_2'', Name ''Lake_2_3'', Name ''Lake_2_3_4'']"
  by (simp add: clean_df_def mongo_to_dataframe_def five_lakes_def stub_trail_def
      drop_duplicates_url_def duplicated_def suffix_duplicated_def index_where_def Let_def
      upt_rec)

text \<open>
  C1. Five records with the same name and five different urls: the three passes of
  \<open>clean_df\<close> give the keys \<open>Lake\<close>, \<open>Lake_2\<close>, \<open>Lake_2_3\<close>, \<open>Lake_2_3_4\<close> and
  \<open>Lake_2_3_4\<close> again, so the fourth and fifth record keep the same key: a five-way
  collision is not resolved.
\<close>

theorem clean_df_five_way_collision:
  "map fst (clean_df (mongo_to_dataframe five_lakes)) =
     [Name ''Lake'', Name ''Lake_2'', Name ''Lake_2_3'', Name ''Lake_2_3_4'', Name ''Lake_2_3_4'']
   \<and> \<not> distinct (map fst (clean_df (mongo_to_dataframe five_lakes)))"
  by (simp add: clean_df_def mongo_to_dataframe_def five_lakes_def stub_trail_def
      drop_duplicates_url_def duplicated_def suffix_duplicated_def index_where_def Let_def
      upt_rec)

text \<open>
  C7. The same record scraped twice (one url): the deduplicated, name-keyed table
  \<open>df_clean\<close> has one row, but the corpus table is built from the raw table and has two
  rows, labelled by raw position.
\<close>

theorem build_corpus_keeps_url_duplicates:
  "(case build_corpus twice_scraped of
      Inl e \<Rightarrow> False
    | Inr t \<Rightarrow> map fst (df_clean t) = [Name ''Bear Peak'']
              \<and> map fst (df_corpus t) = [Pos 0, Pos 1]
              \<and> length (df_corpus t) \<noteq> length (df_clean t))"
  by (simp add: build_corpus_def twice_scraped_def stub_trail_def clean_df_def
      mongo_to_dataframe_def drop_duplicates_url_def duplicated_def suffix_duplicated_def
      index_where_def make_reviews_df_def make_corpus_df_def align_series_def Let_def
      upt_rec)

subsection \<open>Topic Model\<close>

lemma argmax_less: "xs \<noteq> [] \<Longrightarrow> argmax xs < length xs"
  by (induction xs rule: argmax.induct) (auto simp: Let_def)

lemma argmax_max: "i < length xs \<Longrightarrow> xs ! i \<le> xs ! argmax xs"
proof (induction xs arbitrary: i rule: argmax.induct)
  case 1
  then show ?case by simp
next
  case (2 x)
  then show ?case by simp
next
  case (3 x y ys)
  let ?j = "argmax (y # ys)"
  show ?case
  proof (cases i)
    case 0
    then show ?thesis by (auto simp: Let_def)
  next
    case (Suc k)
    with "3.prems" have k: "k < length (y # ys)" by simp
    from "3.IH" [OF k] have le: "(y # ys) ! k \<le> (y # ys) ! ?j" .
    show ?thesis
    proof (cases "x < (y # ys) ! ?j")
      case True
      with le Suc show ?thesis by (simp add: Let_def)
    next
      case False
      with le Suc show ?thesis by (simp add: Let_def)
    qed
  qed
qed

lemma argmax_first: "i < argmax xs \<Longrightarrow> xs ! i < xs ! argmax xs"
proof (induction xs arbitrary: i rule: argmax.induct)
  case 1
  then show ?case by simp
next
  case (2 x)
  then show ?case by simp
next
  case (3 x y ys)
  let ?j = "argmax (y # ys)"
  from "3.prems" have t: "x < (y # ys) ! ?j" and a: "argmax (x # y # ys) = Suc ?j"
    by (auto simp: Let_def split: if_splits)
  show ?case
  proof (cases i)
    case 0
    with t a show ?thesis by simp
  next
    case (Suc k)
    with "3.prems" a have "k < ?j" by simp
    from "3.IH" [OF this] Suc a show ?thesis by simp
  qed
qed

lemma nmf_ok_iff:
  "nmf_topic_modeling corpus W H feats K = Inr r \<longleftrightarrow>
     (length W = length corpus \<and> list_all (\<lambda>row. length row = K) W
      \<and> length H = K \<and> list_all (\<lambda>row. length row = length feats) H
      \<and> r = (\<lparr> w_columns = map (\<lambda>i. ''topic_'' @ str_nat i) [1..<K + 1],
                w_rows = map (\<lambda>(l, r). (l, r\<lparr> majority_topic := majority_topic r + 1 \<rparr>))
                          (zip (map fst corpus)
                             (map (\<lambda>(row, t). \<lparr> loadings = map round2 row, majority_topic = t \<rparr>)
                                (zip W (document_topics W)))) \<rparr>,
              \<lparr> h_index = map (\<lambda>i. ''topic_'' @ str_nat i) [1..<K + 1],
                h_columns = feats, h_values = map (map round2) H \<rparr>))"
  unfolding nmf_topic_modeling_def Let_def document_topics_def
  by (auto simp del: upt_Suc)

lemma nmf_topic_modeling_rows:
  assumes "nmf_topic_modeling corpus W H feats K = Inr (W_df, H_df)"
  shows "length W = length corpus"
    and "\<forall>row \<in> set W. length row = K"
    and "\<And>i. i < length corpus \<Longrightarrow>
           w_rows W_df ! i = (fst (corpus ! i),
              \<lparr> loadings = map round2 (W ! i), majority_topic = argmax (W ! i) + 1 \<rparr>)"
    and "length (w_rows W_df) = length corpus"
proof -
  from assms have ok: "length W = length corpus" "list_all (\<lambda>row. length row = K) W"
    "w_rows W_df = map (\<lambda>(l, r). (l, r\<lparr> majority_topic := majority_topic r + 1 \<rparr>))
        (zip (map fst corpus)
           (map (\<lambda>(row, t). \<lparr> loadings = map round2 row, majority_topic = t \<rparr>)
                (zip W (document_topics W))))"
    by (simp_all add: nmf_ok_iff del: upt_Suc)
  from ok show len: "length W = length corpus" by simp
  from ok show "\<forall>row \<in> set W. length row = K" by (simp add: list_all_iff)
  from ok have rows: "w_rows W_df =
      map (\<lambda>(l, r). (l, r\<lparr> majority_topic := majority_topic r + 1 \<rparr>))
        (zip (map fst corpus)
           (map (\<lambda>(row, t). \<lparr> loadings = map round2 row, majority_topic = t \<rparr>)
                (zip W (document_topics W))))"
    by simp
  show "length (w_rows W_df) = length corpus"
    unfolding rows using len by (simp add: document_topics_def)
  fix i assume "i < length corpus"
  with len show "w_rows W_df ! i = (fst (corpus ! i),
              \<lparr> loadings = map round2 (W ! i), majority_topic = argmax (W ! i) + 1 \<rparr>)"
    unfolding rows by (simp add: document_topics_def)
qed

text \<open>
  C9. When \<open>nmf_topic_modeling\<close> returns its tables for \<open>K \<ge> 1\<close> topics, the
  \<open>majority_topic\<close> entry of document \<open>i\<close> in the document-topic table is the argmax
  column of row \<open>i\<close> of the (unrounded) matrix \<open>W\<close>, counted from 1: it lies between
  1 and \<open>K\<close>, no loading of the row exceeds the loading at that column, and every earlier
  column has a strictly smaller loading.
\<close>

theorem majority_topic_argmax:
  assumes "nmf_topic_modeling corpus W H feats K = Inr (W_df, H_df)"
    and "i < length corpus" and "0 < K"
  shows "fst (w_rows W_df ! i) = fst (corpus ! i)
       \<and> majority_topic (snd (w_rows W_df ! i)) = argmax (W ! i) + 1
       \<and> 1 \<le> majority_topic (snd (w_rows W_df ! i))
       \<and> majority_topic (snd (w_rows W_df ! i)) \<le> K
       \<and> (\<forall>j < K. W ! i ! j \<le> W ! i ! argmax (W ! i))
       \<and> (\<forall>j < argmax (W ! i). W ! i ! j < W ! i ! argmax (W ! i))"
proof -
  note r = nmf_topic_modeling_rows [OF assms(1)]
  from r(1) assms(2) have iW: "i < length W" by simp
  with r(2) have lenrow: "length (W ! i) = K" by simp
  with assms(3) have ne: "W ! i \<noteq> []" by auto
  from r(3) [OF assms(2)]
  have row: "w_rows W_df ! i = (fst (corpus ! i),
       \<lparr> loadings = map round2 (W ! i), majority_topic = argmax (W ! i) + 1 \<rparr>)" .
  from argmax_less [OF ne] lenrow have "argmax (W ! i) < K" by simp
  moreover have "\<forall>j < K. W ! i ! j \<le> W ! i ! argmax (W ! i)"
    using argmax_max [of _ "W ! i"] lenrow by simp
  moreover have "\<forall>j < argmax (W ! i). W ! i ! j < W ! i ! argmax (W ! i)"
    using argmax_first [of _ "W ! i"] by simp
  ultimately show ?thesis using row by simp
qed


lemma round2_ex: "round2 (123 / 1000) = 12 / 100" "round2 (877 / 1000) = 88 / 100"
  "round2 (1 / 2) = 1 / 2" "round2 1 = 1" "round2 2 = 2"
  by (simp_all add: round2_def Let_def)

lemma str_nat_ex: "str_nat (Suc 0) = ''1''" "str_nat (Suc (Suc 0)) = ''2''"
  by (subst str_nat.simps, simp)+

lemma ex_nmf: "nmf_topic_modeling ex_corpus ex_W ex_H [''lake''] 2 = Inr (ex_W_df, ex_H_df)"
  by (simp add: nmf_ok_iff ex_corpus_def ex_W_def ex_H_def ex_W_df_def ex_H_df_def
      document_topics_def round2_ex str_nat_ex upt_rec)

theorem majority_topic_argmax_witness:
  "nmf_topic_modeling ex_corpus ex_W ex_H [''lake''] 2 = Inr (ex_W_df, ex_H_df)
   \<and> 0 < length ex_corpus \<and> (0::nat) < 2
   \<and> majority_topic (snd (w_rows ex_W_df ! 0)) = 2
   \<and> argmax (ex_W ! 0) = 1"
proof -
  have len: "0 < length ex_corpus" by (simp add: ex_corpus_def)
  have K: "(0::nat) < 2" by simp
  from majority_topic_argmax [OF ex_nmf len K]
  have "majority_topic (snd (w_rows ex_W_df ! 0)) = 2 \<and> argmax (ex_W ! 0) = 1"
    by (simp add: ex_W_def)
  with ex_nmf len K show ?thesis by simp
qed

subsection \<open>Feature Fusion\<close>

lemma merge_Nil: "merge [] right = []"
  by (simp add: merge_def)

lemma merge_Cons:
  "merge ((l, a) # left) right =
     map (\<lambda>(l', b). (l, (a, b))) (filter (\<lambda>(l', b). l' = l) right) @ merge left right"
  by (simp add: merge_def)

lemma in_set_merge:
  "(l, (a, b)) \<in> set (merge left right) \<longleftrightarrow> (l, a) \<in> set left \<and> (l, b) \<in> set right"
proof (induction left)
  case Nil
  then show ?case by (simp add: merge_Nil)
next
  case (Cons x left)
  obtain l' a' where x: "x = (l', a')" by (cases x)
  show ?case
    unfolding x merge_Cons using Cons.IH by auto
qed

lemma merge_filter_left:
  "merge (filter (\<lambda>(l, a). l \<in> fst ` set right) left) right = merge left right"
proof (induction left)
  case Nil
  then show ?case by (simp add: merge_Nil)
next
  case (Cons x left)
  obtain l a where x: "x = (l, a)" by (cases x)
  show ?case
  proof (cases "l \<in> fst ` set right")
    case True
    with Cons.IH show ?thesis by (simp add: x merge_Cons)
  next
    case False
    then have "filter (\<lambda>(l', b). l' = l) right = []"
      by (force simp: filter_empty_conv)
    with False Cons.IH show ?thesis by (simp add: x merge_Cons)
  qed
qed

lemma merge_filter_right:
  assumes "fst ` set left \<subseteq> S"
  shows "merge left (filter (\<lambda>(l, b). l \<in> S) right) = merge left right"
proof -
  have "filter (\<lambda>(l', b). l' = l) (filter (\<lambda>(l, b). l \<in> S) right)
        = filter (\<lambda>(l', b). l' = l) right" if "(l, a) \<in> set left" for l a
  proof -
    from that assms have "l \<in> S" by force
    then show ?thesis by (auto simp: case_prod_unfold intro: filter_cong)
  qed
  then show ?thesis
    unfolding merge_def by (intro arg_cong [where f = concat] map_cong) auto
qed

lemma merge_unmatched:
  "merge (filter (\<lambda>(l, a). l \<in> fst ` set right) left)
         (filter (\<lambda>(l, b). l \<in> fst ` set left) right) = merge left right"
proof -
  have "fst ` set (filter (\<lambda>(l, a). l \<in> fst ` set right) left) \<subseteq> fst ` set left"
    by auto
  from merge_filter_right [OF this]
  have "merge (filter (\<lambda>(l, a). l \<in> fst ` set right) left)
         (filter (\<lambda>(l, b). l \<in> fst ` set left) right)
      = merge (filter (\<lambda>(l, a). l \<in> fst ` set right) left) right" .
  then show ?thesis by (simp add: merge_filter_left)
qed

lemma fuse_labels: "map fst (f_rows (fuse hike W_df)) = map fst (merge hike (w_rows W_df))"
  by (simp add: fuse_def merge_and_drop_def Let_def case_prod_unfold comp_def)

lemma fuse_row:
  assumes "(l, row) \<in> set (f_rows (fuse hike W_df))"
  shows "\<exists>h t. (l, h) \<in> set hike \<and> (l, t) \<in> set (w_rows W_df)
             \<and> f_loadings row = loadings t \<and> f_name row = h_name h
             \<and> f_numeric row = h_numeric h"
proof -
  from assms obtain h t where
    m: "(l, (h, t)) \<in> set (merge hike (w_rows W_df))" and
    r: "f_loadings row = loadings t" "f_name row = h_name h" "f_numeric row = h_numeric h"
    by (auto simp: fuse_def merge_and_drop_def Let_def)
  from m have "(l, h) \<in> set hike" "(l, t) \<in> set (w_rows W_df)"
    by (simp_all add: in_set_merge)
  with r show ?thesis by blast
qed

lemma ex_fuse_loadings:
  "map (f_loadings \<circ> snd) (f_rows (fuse ex_hike ex_W_df)) = [[12 / 100, 88 / 100], [1 / 2, 1 / 2]]"
  by (simp add: fuse_def merge_and_drop_def merge_def Let_def ex_hike_def ex_W_df_def)


lemma ex_fuse_topics:
  "fuse_topics ex_corpus ex_W ex_H [''lake''] 2 ex_hike = Inr (fuse ex_hike ex_W_df)"
  by (simp add: fuse_topics_def ex_nmf)

text \<open>
  C5 as stated fails. For the factor row \<open>[0.123, 0.877]\<close> the loadings that reach the
  fused table are \<open>[0.12, 0.88]\<close>: the join receives the rounded table, not \<open>W\<close>.
\<close>

theorem fusion_loadings_not_unrounded:
  "fuse_topics ex_corpus ex_W ex_H [''lake''] 2 ex_hike = Inr (fuse ex_hike ex_W_df)
   \<and> map (f_loadings \<circ> snd) (f_rows (fuse ex_hike ex_W_df))
       = [[12 / 100, 88 / 100], [1 / 2, 1 / 2]]
   \<and> map (f_loadings \<circ> snd) (f_rows (fuse ex_hike ex_W_df)) \<noteq> ex_W"
proof (intro conjI)
  show "fuse_topics ex_corpus ex_W ex_H [''lake''] 2 ex_hike = Inr (fuse ex_hike ex_W_df)"
    by (rule ex_fuse_topics)
  show "map (f_loadings \<circ> snd) (f_rows (fuse ex_hike ex_W_df))
       = [[12 / 100, 88 / 100], [1 / 2, 1 / 2]]"
    by (rule ex_fuse_loadings)
  show "map (f_loadings \<circ> snd) (f_rows (fuse ex_hike ex_W_df)) \<noteq> ex_W"
    by (simp add: ex_fuse_loadings ex_W_def)
qed

text \<open>
  C5, amended. \<open>nmf_topic_modeling\<close> returns the document-topic loadings only rounded to
  two decimals, and that table is the one joined into the fused table: the topic loadings
  of every fused row are the rounded row of \<open>W\<close> of a document with the same label.
\<close>

theorem fusion_loadings_rounded:
  assumes "fuse_topics corpus W H feats K hike = Inr fused"
    and "(l, row) \<in> set (f_rows fused)"
  shows "\<exists>i < length corpus. fst (corpus ! i) = l \<and> f_loadings row = map round2 (W ! i)"
proof -
  from assms(1) obtain W_df H_df where
    n: "nmf_topic_modeling corpus W H feats K = Inr (W_df, H_df)" and
    f: "fused = fuse hike W_df"
    by (auto simp: fuse_topics_def split: sum.splits)
  from assms(2) f fuse_row obtain t where
    t: "(l, t) \<in> set (w_rows W_df)" and lo: "f_loadings row = loadings t"
    by blast
  note r = nmf_topic_modeling_rows [OF n]
  from t obtain i where i: "i < length (w_rows W_df)" and at: "w_rows W_df ! i = (l, t)"
    by (auto simp: in_set_conv_nth)
  from i r(4) have ic: "i < length corpus" by simp
  from r(3) [OF ic] at have "fst (corpus ! i) = l" "loadings t = map round2 (W ! i)"
    by simp_all
  with ic lo show ?thesis by auto
qed

theorem fusion_loadings_rounded_witness:
  "fuse_topics ex_corpus ex_W ex_H [''lake''] 2 ex_hike = Inr (fuse ex_hike ex_W_df)
   \<and> f_rows (fuse ex_hike ex_W_df) ! 0 \<in> set (f_rows (fuse ex_hike ex_W_df))
   \<and> fst (f_rows (fuse ex_hike ex_W_df) ! 0) = Pos 0
   \<and> f_loadings (snd (f_rows (fuse ex_hike ex_W_df) ! 0)) = map round2 (ex_W ! 0)"
proof -
  have len: "length (f_rows (fuse ex_hike ex_W_df)) = 2"
    by (simp add: fuse_def merge_and_drop_def merge_def Let_def ex_hike_def ex_W_df_def)
  then have m: "f_rows (fuse ex_hike ex_W_df) ! 0 \<in> set (f_rows (fuse ex_hike ex_W_df))"
    by simp
  have l: "fst (f_rows (fuse ex_hike ex_W_df) ! 0) = Pos 0"
    by (simp add: fuse_def merge_and_drop_def merge_def Let_def ex_hike_def ex_W_df_def)
  from m l have "(Pos 0, snd (f_rows (fuse ex_hike ex_W_df) ! 0))
      \<in> set (f_rows (fuse ex_hike ex_W_df))"
    by (metis prod.collapse)
  from fusion_loadings_rounded [OF ex_fuse_topics this]
  obtain i where "i < length ex_corpus" "fst (ex_corpus ! i) = Pos 0"
    "f_loadings (snd (f_rows (fuse ex_hike ex_W_df) ! 0)) = map round2 (ex_W ! i)"
    by blast
  moreover from this(1,2) have "i = 0"
    by (cases i) (auto simp: ex_corpus_def less_Suc_eq)
  ultimately show ?thesis using ex_fuse_topics m l by simp
qed

text \<open>
  The join by itself keeps exactly the rows whose label occurs in both tables, and \<open>fuse\<close>
  returns the fused table and nothing else: given tables with one-sided labels it would
  return what it returns for the two tables without those rows.
\<close>

lemma fuse_unmatched_rows:
  "set (map fst (f_rows (fuse hike W_df))) = fst ` set hike \<inter> fst ` set (w_rows W_df)
   \<and> fuse hike W_df =
       fuse (filter (\<lambda>(l, h). l \<in> fst ` set (w_rows W_df)) hike)
            (W_df\<lparr> w_rows := filter (\<lambda>(l, t). l \<in> fst ` set hike) (w_rows W_df) \<rparr>)"
proof
  have "set (map fst (merge hike (w_rows W_df))) = fst ` set hike \<inter> fst ` set (w_rows W_df)"
  proof (intro set_eqI iffI)
    fix l assume "l \<in> set (map fst (merge hike (w_rows W_df)))"
    then obtain a b where "(l, (a, b)) \<in> set (merge hike (w_rows W_df))" by auto
    then have "(l, a) \<in> set hike" "(l, b) \<in> set (w_rows W_df)"
      by (simp_all add: in_set_merge)
    then show "l \<in> fst ` set hike \<inter> fst ` set (w_rows W_df)" by force
  next
    fix l assume "l \<in> fst ` set hike \<inter> fst ` set (w_rows W_df)"
    then obtain a b where "(l, a) \<in> set hike" "(l, b) \<in> set (w_rows W_df)" by auto
    then have "(l, (a, b)) \<in> set (merge hike (w_rows W_df))"
      by (simp add: in_set_merge)
    then show "l \<in> set (map fst (merge hike (w_rows W_df)))" by force
  qed
  then show "set (map fst (f_rows (fuse hike W_df)))
      = fst ` set hike \<inter> fst ` set (w_rows W_df)"
    by (simp only: fuse_labels)
  show "fuse hike W_df =
       fuse (filter (\<lambda>(l, h). l \<in> fst ` set (w_rows W_df)) hike)
            (W_df\<lparr> w_rows := filter (\<lambda>(l, t). l \<in> fst ` set hike) (w_rows W_df) \<rparr>)"
    by (simp add: fuse_def merge_and_drop_def merge_unmatched)
qed

subsection \<open>Feature Fusion in the script\<close>







subsection \<open>The order of the ranking\<close>

lemma insort_key_before:
  assumes "sorted_wrt (before v) ys" and "\<forall>y \<in> set ys. x < y"
  shows "sorted_wrt (before v) (insort_key (\<lambda>i. v ! i) x ys)"
  using assms
proof (induction ys)
  case Nil
  then show ?case by simp
next
  case (Cons y ys)
  show ?case
  proof (cases "v ! x \<le> v ! y")
    case True
    have "before v x z" if "z \<in> set (y # ys)" for z
    proof (cases "z = y")
      case True
      with \<open>v ! x \<le> v ! y\<close> Cons.prems(2) show ?thesis by (auto simp: before_def)
    next
      case False
      with that have z: "z \<in> set ys" by simp
      with Cons.prems(1) have "before v y z" by simp
      with True Cons.prems(2) z show ?thesis by (auto simp: before_def)
    qed
    with True Cons.prems(1) show ?thesis by simp
  next
    case False
    then have "before v y x" by (simp add: before_def)
    moreover from Cons have "sorted_wrt (before v) (insort_key (\<lambda>i. v ! i) x ys)" by simp
    ultimately show ?thesis
      using False Cons.prems(1) by (auto simp: set_insort_key)
  qed
qed

lemma sort_key_before:
  "sorted_wrt (<) xs \<Longrightarrow> sorted_wrt (before v) (sort_key (\<lambda>i. v ! i) xs)"
proof (induction xs)
  case Nil
  then show ?case by simp
next
  case (Cons x xs)
  then have "sorted_wrt (before v) (sort_key (\<lambda>i. v ! i) xs)" by simp
  moreover from Cons.prems have "\<forall>y \<in> set (sort_key (\<lambda>i. v ! i) xs). x < y" by simp
  ultimately show ?case by (simp add: insort_key_before)
qed

lemma argsort_before: "sorted_wrt (before v) (argsort v)"
  unfolding argsort_def
  by (rule sort_key_before) (simp add: sorted_wrt_iff_nth_less)

lemma length_argsort: "length (argsort v) = length v"
  by (simp add: argsort_def)

lemma set_argsort: "set (argsort v) = {..<length v}"
  by (auto simp: argsort_def)

lemma distinct_argsort: "distinct (argsort v)"
  by (simp add: argsort_def)

lemma rev_argsort_ranking:
  "sorted_wrt (\<lambda>i j. before v j i) (rev (argsort v))"
  using argsort_before [of v] by (simp add: sorted_wrt_rev)

lemma sorted_wrt_py_slice:
  "sorted_wrt P xs \<Longrightarrow> sorted_wrt P (py_slice xs a b)"
  by (simp add: py_slice_def Let_def sorted_wrt_take sorted_wrt_drop)

lemma set_py_slice: "set (py_slice xs a b) \<subseteq> set xs"
  unfolding py_slice_def Let_def
  by (meson order_trans set_take_subset set_drop_subset)

lemma distinct_py_slice: "distinct xs \<Longrightarrow> distinct (py_slice xs a b)"
  by (simp add: py_slice_def Let_def)

lemma py_slice_nonneg:
  "0 \<le> a \<Longrightarrow> 0 \<le> b \<Longrightarrow> py_slice xs a b = take (nat b - nat a) (drop (nat a) xs)"
proof -
  assume a: "0 \<le> a" and b: "0 \<le> b"
  let ?n = "int (length xs)"
  have "py_slice xs a b = take (nat (min b ?n - min a ?n)) (drop (nat (min a ?n)) xs)"
    using a b by (simp add: py_slice_def Let_def)
  also have "\<dots> = take (nat b - nat a) (drop (nat a) xs)"
  proof (cases "a \<le> ?n")
    case True
    then have m: "min a ?n = a" by simp
    show ?thesis
    proof (cases "b \<le> ?n")
      case True
      with a b show ?thesis unfolding m by (simp add: min_def nat_diff_distrib')
    next
      case False
      then have "min b ?n = ?n" by simp
      moreover have "take (nat (?n - a)) (drop (nat a) xs) = drop (nat a) xs"
        using a True by (simp add: nat_diff_distrib')
      moreover have "take (nat b - nat a) (drop (nat a) xs) = drop (nat a) xs"
        using a b False by simp
      ultimately show ?thesis unfolding m by simp
    qed
  next
    case False
    then have "drop (nat (min a ?n)) xs = []" "drop (nat a) xs = []" by simp_all
    then show ?thesis by simp
  qed
  finally show ?thesis .
qed

subsection \<open>The steps of the query functions\<close>

lemma getitems_in_range:
  "\<forall>i \<in> set idx. i < length hs \<Longrightarrow> getitems hs idx = Inr (map (\<lambda>i. hs ! i) idx)"
  by (induction idx) auto

lemma hike_urls_py_print: "hike_urls (py_print s line) = hike_urls s"
  by (simp add: py_print_def)

lemma rec_line_py_print: "rec_line (py_print s line) hs = rec_line s hs"
  by (rule ext) (simp add: rec_line_def hike_urls_py_print)

lemma print_recs_all:
  assumes "\<forall>i \<in> set idx. i < length hs \<and> hs ! i \<in> dom (hike_urls s)"
  shows "print_recs s hs (zip idx (map (\<lambda>i. hs ! i) idx))
         = (s\<lparr> stdout := stdout s @ map (rec_line s hs) idx \<rparr>, Inr ())"
  using assms
proof (induction idx arbitrary: s)
  case Nil
  then show ?case by simp
next
  case (Cons i idx)
  from Cons.prems obtain u where u: "hike_urls s (hs ! i) = Some u" and i: "i < length hs"
    by auto
  let ?s = "py_print s (hs ! i @ '': '' @ u)"
  have same: "hike_urls ?s = hike_urls s" by (rule hike_urls_py_print)
  have line: "rec_line ?s hs = rec_line s hs" by (rule rec_line_py_print)
  from Cons.prems have "\<forall>k \<in> set idx. k < length hs \<and> hs ! k \<in> dom (hike_urls ?s)"
    by (simp add: hike_urls_py_print)
  from Cons.IH [OF this]
  have "print_recs ?s hs (zip idx (map (\<lambda>i. hs ! i) idx))
        = (?s\<lparr> stdout := stdout ?s @ map (rec_line s hs) idx \<rparr>, Inr ())"
    by (simp add: rec_line_py_print)
  with u i show ?case
    by (simp add: py_print_def rec_line_def)
qed

lemma np_where_first:
  assumes "i \<in> set hs"
  shows "\<exists>rest. np_where hs i = position hs i # rest"
    and "position hs i < length hs"
    and "hs ! position hs i = i"
proof -
  from assms obtain k where "k < length hs" "hs ! k = i"
    by (auto simp: in_set_conv_nth)
  then have "k \<in> set (np_where hs i)" by (simp add: np_where_def)
  then have ne: "np_where hs i \<noteq> []" by auto
  then show "\<exists>rest. np_where hs i = position hs i # rest"
    by (cases "np_where hs i") (simp_all add: position_def)
  from ne have "position hs i \<in> set (np_where hs i)"
    by (simp add: position_def)
  then show "position hs i < length hs" "hs ! position hs i = i"
    by (simp_all add: np_where_def)
qed

lemma np_where_absent: "i \<notin> set hs \<Longrightarrow> np_where hs i = []"
  by (auto simp: np_where_def filter_empty_conv)

lemma user_profile_loop_sum:
  assumes "set items \<subseteq> set (hikes s)"
    and "length (hikes s) \<le> length (X s)"
    and "\<forall>row \<in> set (X s). length row = d"
    and "length up = d"
  shows "user_profile_loop s up items
         = Inr (map (\<lambda>j. up ! j + (\<Sum>i\<leftarrow>items. X s ! position (hikes s) i ! j)) [0..<d])"
  using assms(1,4)
proof (induction items arbitrary: up)
  case Nil
  then have "map (\<lambda>j. up ! j) [0..<d] = up" by (metis map_nth)
  then show ?case by simp
next
  case (Cons i items)
  from Cons.prems have mem: "i \<in> set (hikes s)" by simp
  let ?p = "position (hikes s) i"
  note w = np_where_first [OF mem]
  from w(2) assms(2) have p: "?p < length (X s)" by simp
  with assms(3) have lenrow: "length (X s ! ?p) = d" by simp
  let ?up = "map2 (+) up (X s ! ?p)"
  from lenrow Cons.prems(2) have lenup: "length ?up = d" by simp
  from Cons.prems(1) have "set items \<subseteq> set (hikes s)" by simp
  from Cons.IH [OF this lenup]
  have "user_profile_loop s ?up items
        = Inr (map (\<lambda>j. ?up ! j + (\<Sum>i\<leftarrow>items. X s ! position (hikes s) i ! j)) [0..<d])" .
  also have "map (\<lambda>j. ?up ! j + (\<Sum>i\<leftarrow>items. X s ! position (hikes s) i ! j)) [0..<d]
        = map (\<lambda>j. up ! j + (\<Sum>i\<leftarrow>i # items. X s ! position (hikes s) i ! j)) [0..<d]"
    using lenrow Cons.prems(2) by (intro map_cong) auto
  finally have "user_profile_loop s ?up items
        = Inr (map (\<lambda>j. up ! j + (\<Sum>i\<leftarrow>i # items. X s ! position (hikes s) i ! j)) [0..<d])" .
  moreover have "user_profile_loop s up (i # items) = user_profile_loop s ?up items"
    using p w(1) by auto
  ultimately show ?case by simp
qed

lemma get_user_profile_sum:
  assumes "set items \<subseteq> set (hikes s)"
    and "length (hikes s) \<le> length (X s)"
    and "\<forall>row \<in> set (X s). length row = X_shape1 s"
  shows "get_user_profile s items
         = Inr (elementwise_sum (X_shape1 s) (map (\<lambda>i. X s ! position (hikes s) i) items))"
proof -
  have "length (replicate (X_shape1 s) (0::real)) = X_shape1 s" by simp
  from user_profile_loop_sum [OF assms this]
  show ?thesis
    by (simp add: get_user_profile_def elementwise_sum_def comp_def cong: map_cong)
qed

lemma user_profile_loop_absent:
  "\<not> set items \<subseteq> set (hikes s) \<Longrightarrow> user_profile_loop s up items = Inl IndexError"
proof (induction items arbitrary: up)
  case Nil
  then show ?case by simp
next
  case (Cons i items)
  show ?case
  proof (cases "i \<in> set (hikes s)")
    case False
    then show ?thesis by (simp add: np_where_absent)
  next
    case True
    with Cons.prems have "\<not> set items \<subseteq> set (hikes s)" by simp
    from Cons.IH [OF this]
    have ih: "user_profile_loop s up' items = Inl IndexError" for up' .
    from np_where_first(1) [OF True] show ?thesis
      by (auto simp: ih)
  qed
qed

lemma loc_absent: "l \<notin> set (sim_index df) \<Longrightarrow> loc df l = Inl (KeyError l)"
proof -
  assume a: "l \<notin> set (sim_index df)"
  have "filter (\<lambda>(k, row). k = l) (zip (sim_index df) (sim_values df)) = []"
    using a by (auto simp: filter_empty_conv dest: set_zip_leftD)
  then show ?thesis by (simp add: loc_def)
qed

subsection \<open>Unknown names, and ties in the ranking\<close>

text \<open>
  C4 as stated fails for the profile query. With a liked name that is not among \<open>hikes\<close>,
  \<open>np.where\<close> finds no position and the exception is the \<open>IndexError\<close> of reading entry 0
  of the empty match array: an out-of-range lookup.
\<close>

theorem unknown_liked_name_index_error:
  "np_where (hikes ex_state) ''Zed'' = []
   \<and> get_user_recommendation ex_state [''Zed''] 5 = (ex_state, Inl IndexError)"
  by (simp add: get_user_recommendation_def get_user_profile_def np_where_def ex_state_def
      ex_names_def upt_rec)

text \<open>
  C4, amended. A seed name absent from the index of the similarity matrix makes
  \<open>get_hike_recommendations\<close> fail with the \<open>KeyError\<close> of the label lookup, which carries
  the name. A liked name absent from \<open>hikes\<close> makes \<open>get_user_recommendation\<close> fail with
  an \<open>IndexError\<close>. In both cases nothing is printed and the state is as before.
\<close>

theorem unknown_name_errors:
  "(seed \<notin> set (sim_index (similarity_df s)) \<longrightarrow>
      get_hike_recommendations s seed n = (s, Inl (KeyError seed)))
   \<and> (\<not> set items \<subseteq> set (hikes s) \<longrightarrow>
      get_user_recommendation s items n = (s, Inl IndexError))"
  by (simp add: get_hike_recommendations_def loc_absent get_user_recommendation_def
      get_user_profile_def user_profile_loop_absent)

theorem unknown_name_errors_witness:
  "''Zed'' \<notin> set (sim_index (similarity_df ex_state))
   \<and> get_hike_recommendations ex_state ''Zed'' 3 = (ex_state, Inl (KeyError ''Zed''))
   \<and> \<not> set [''Bear Peak'', ''Zed''] \<subseteq> set (hikes ex_state)
   \<and> get_user_recommendation ex_state [''Bear Peak'', ''Zed''] 3 = (ex_state, Inl IndexError)"
proof -
  have a: "''Zed'' \<notin> set (sim_index (similarity_df ex_state))"
    by (simp add: ex_state_def ex_names_def)
  have b: "\<not> set [''Bear Peak'', ''Zed''] \<subseteq> set (hikes ex_state)"
    by (simp add: ex_state_def ex_names_def)
  from unknown_name_errors [of "''Zed''" ex_state 3 "[''Bear Peak'', ''Zed'']"] a b
  show ?thesis by blast
qed

lemma tied_blue_lake:
  "loc (similarity_df tied_state) ''Blue Lake'' = Inr [1 / 2, 1 / 2, 1]"
  by (simp add: loc_def tied_state_def tied_names_def)

lemma argsort_tied_blue_lake: "argsort [1 / 2, 1 / 2, 1] = [0, 1, 2]"
  by (simp add: argsort_def upt_rec)

text \<open>
  C6 as stated fails. \<open>Bear Peak\<close> (row 0) and \<open>Royal Arch\<close> (row 1) are equally similar
  to the seed \<open>Blue Lake\<close>; the output lists row 1 before row 0.
\<close>

theorem ties_not_in_index_order:
  "get_hike_recommendations tied_state ''Blue Lake'' 2 =
     (tied_state\<lparr> stdout := [''Because you enjoyed Blue Lake, you may like these:'' @ newline,
                               ''Royal Arch: u/arch'', ''Bear Peak: u/bear''] \<rparr>,
      Inr ())"
  by (simp add: get_hike_recommendations_def tied_blue_lake argsort_rev_slice_def
      argsort_tied_blue_lake py_slice_def Let_def)
    (simp add: tied_state_def tied_names_def py_print_def)

text \<open>
  C6, amended. Both query functions rank with \<open>np.argsort(v)[::-1][a:b]\<close> and apply no
  tie-break of their own. Along that slice the scores never increase, and (with the stable
  \<open>argsort\<close> modelled here) two positions with equal scores come out in descending
  row-index order, the reverse of the original order. The slice is a function of the
  scores and the bounds.
\<close>

theorem ranking_ties_reversed:
  "p < q \<and> q < length (argsort_rev_slice v a b) \<longrightarrow>
     v ! (argsort_rev_slice v a b ! q) \<le> v ! (argsort_rev_slice v a b ! p)
     \<and> (v ! (argsort_rev_slice v a b ! q) = v ! (argsort_rev_slice v a b ! p)
          \<longrightarrow> argsort_rev_slice v a b ! q < argsort_rev_slice v a b ! p)"
proof
  assume pq: "p < q \<and> q < length (argsort_rev_slice v a b)"
  have "sorted_wrt (\<lambda>i j. before v j i) (argsort_rev_slice v a b)"
    unfolding argsort_rev_slice_def
    by (rule sorted_wrt_py_slice) (rule rev_argsort_ranking)
  with pq have "before v (argsort_rev_slice v a b ! q) (argsort_rev_slice v a b ! p)"
    by (simp add: sorted_wrt_iff_nth_less)
  then show "v ! (argsort_rev_slice v a b ! q) \<le> v ! (argsort_rev_slice v a b ! p)
     \<and> (v ! (argsort_rev_slice v a b ! q) = v ! (argsort_rev_slice v a b ! p)
          \<longrightarrow> argsort_rev_slice v a b ! q < argsort_rev_slice v a b ! p)"
    by (auto simp: before_def)
qed

theorem ranking_ties_reversed_witness:
  "argsort_rev_slice [1 / 2, 1 / 2, 1] 1 3 = [1, 0]
   \<and> (0::nat) < 1 \<and> 1 < length (argsort_rev_slice [1 / 2, 1 / 2, 1] 1 3)
   \<and> [1 / 2, 1 / 2, 1 :: real] ! (argsort_rev_slice [1 / 2, 1 / 2, 1] 1 3 ! 1)
       = [1 / 2, 1 / 2, 1] ! (argsort_rev_slice [1 / 2, 1 / 2, 1] 1 3 ! 0)
   \<and> argsort_rev_slice [1 / 2, 1 / 2, 1] 1 3 ! 1 < argsort_rev_slice [1 / 2, 1 / 2, 1] 1 3 ! 0"
proof -
  have s: "argsort_rev_slice [1 / 2, 1 / 2, 1] 1 3 = [1, 0]"
    by (simp add: argsort_rev_slice_def argsort_tied_blue_lake py_slice_def)
  from ranking_ties_reversed [of 0 1 "[1 / 2, 1 / 2, 1]" 1 3] s
  show ?thesis by simp
qed

subsection \<open>Successful queries\<close>

lemma filter_zip_distinct:
  "distinct ks \<Longrightarrow> length vs = length ks \<Longrightarrow> p < length ks \<Longrightarrow>
     filter (\<lambda>(k, row). k = ks ! p) (zip ks vs) = [(ks ! p, vs ! p)]"
proof (induction ks arbitrary: vs p)
  case Nil
  then show ?case by simp
next
  case (Cons k ks)
  from Cons.prems(2) obtain v vs' where vs: "vs = v # vs'" by (cases vs) auto
  show ?case
  proof (cases p)
    case 0
    from Cons.prems(1) have "k \<notin> set ks" by simp
    then have "filter (\<lambda>(k', row). k' = k) (zip ks vs') = []"
      by (auto simp: filter_empty_conv dest: set_zip_leftD)
    with 0 vs show ?thesis by simp
  next
    case (Suc p')
    with Cons.prems have "ks ! p' \<noteq> k" by auto
    moreover from Cons.prems vs Suc
    have "filter (\<lambda>(k, row). k = ks ! p') (zip ks vs') = [(ks ! p', vs' ! p')]"
      by (intro Cons.IH) auto
    ultimately show ?thesis using vs Suc by auto
  qed
qed

lemma loc_present:
  assumes "distinct (sim_index df)" and "length (sim_values df) = length (sim_index df)"
    and "l \<in> set (sim_index df)"
  shows "loc df l = Inr (sim_values df ! position (sim_index df) l)"
proof -
  note w = np_where_first [OF assms(3)]
  from filter_zip_distinct [OF assms(1,2) w(2)] w(3)
  show ?thesis by (simp add: loc_def)
qed

lemma argsort_rev_slice_nonneg:
  "0 \<le> a \<Longrightarrow> 0 \<le> b \<Longrightarrow>
     argsort_rev_slice v a b = take (nat b - nat a) (drop (nat a) (rev (argsort v)))"
  by (simp add: argsort_rev_slice_def py_slice_nonneg)

lemma set_rev_argsort_slice:
  "set (take k (drop j (rev (argsort v)))) \<subseteq> {..<length v}"
proof -
  have "set (take k (drop j (rev (argsort v)))) \<subseteq> set (rev (argsort v))"
    by (meson order_trans set_take_subset set_drop_subset)
  then show ?thesis by (simp add: set_argsort)
qed

lemma print_after_header:
  assumes "\<forall>i \<in> set idx. i < length hs \<and> hs ! i \<in> dom (hike_urls s)"
  shows "(case getitems hs idx of
            Inl e \<Rightarrow> (s, Inl e)
          | Inr recs \<Rightarrow> print_recs (py_print s h) hs (zip idx recs))
         = (s\<lparr> stdout := stdout s @ h # map (rec_line s hs) idx \<rparr>, Inr ())"
proof -
  from assms have g: "getitems hs idx = Inr (map (\<lambda>i. hs ! i) idx)"
    by (simp add: getitems_in_range)
  from assms have "\<forall>i \<in> set idx. i < length hs \<and> hs ! i \<in> dom (hike_urls (py_print s h))"
    by (simp add: hike_urls_py_print)
  from print_recs_all [OF this]
  have "print_recs (py_print s h) hs (zip idx (map (\<lambda>i. hs ! i) idx))
        = ((py_print s h)\<lparr> stdout := stdout (py_print s h) @ map (rec_line s hs) idx \<rparr>, Inr ())"
    by (simp add: rec_line_py_print)
  also have "(py_print s h)\<lparr> stdout := stdout (py_print s h) @ map (rec_line s hs) idx \<rparr>
        = s\<lparr> stdout := stdout s @ h # map (rec_line s hs) idx \<rparr>"
    by (simp add: py_print_def)
  finally show ?thesis by (simp add: g)
qed

lemma ranking_descending:
  "p < q \<Longrightarrow> q < length (take k (drop j (rev (argsort v)))) \<Longrightarrow>
     v ! (take k (drop j (rev (argsort v))) ! q) \<le> v ! (take k (drop j (rev (argsort v))) ! p)"
proof -
  assume pq: "p < q" "q < length (take k (drop j (rev (argsort v))))"
  have "sorted_wrt (\<lambda>i j. before v j i) (take k (drop j (rev (argsort v))))"
    by (intro sorted_wrt_take sorted_wrt_drop rev_argsort_ranking)
  with pq have "before v (take k (drop j (rev (argsort v))) ! q)
                         (take k (drop j (rev (argsort v))) ! p)"
    by (simp add: sorted_wrt_iff_nth_less)
  then show ?thesis by (auto simp: before_def)
qed

lemma strict_top_first:
  assumes "t < length v" and "\<forall>j < length v. j \<noteq> t \<longrightarrow> v ! j < v ! t"
  shows "t \<notin> set (drop 1 (rev (argsort v)))"
proof
  let ?r = "rev (argsort v)"
  assume "t \<in> set (drop 1 ?r)"
  then obtain k where k: "k < length (drop 1 ?r)" "drop 1 ?r ! k = t"
    by (auto simp: in_set_conv_nth)
  then have k1: "Suc k < length ?r" and at: "?r ! Suc k = t" by auto
  have d: "distinct ?r" by (simp add: distinct_argsort)
  from k1 have pos: "0 < length ?r" by linarith
  from nth_mem [OF pos] have "?r ! 0 \<in> set ?r" .
  then have lt: "?r ! 0 < length v" by (simp add: set_argsort)
  from nth_eq_iff_index_eq [OF d pos k1] at have ne: "?r ! 0 \<noteq> t" by auto
  from rev_argsort_ranking [of v] k1 have "before v (?r ! Suc k) (?r ! 0)"
    by (simp add: sorted_wrt_iff_nth_less)
  with at have "v ! t \<le> v ! (?r ! 0)" by (auto simp: before_def)
  moreover from assms(2) lt ne have "v ! (?r ! 0) < v ! t" by simp
  ultimately show False by simp
qed

lemma dot_zeros: "dot (replicate d 0) (replicate d 0) = 0"
  by (induction d) (simp_all add: dot_def)

lemma norm2_zeros: "norm2 (replicate d 0) = 0"
  by (simp add: norm2_def dot_zeros)

lemma idx_printable:
  assumes "set idx \<subseteq> {..<length hs}" and "set hs \<subseteq> dom m"
  shows "\<forall>i \<in> set idx. i < length hs \<and> hs ! i \<in> dom m"
proof
  fix i assume "i \<in> set idx"
  with assms(1) have i: "i < length hs" by auto
  then have "hs ! i \<in> set hs" by (rule nth_mem)
  with assms(2) i show "i < length hs \<and> hs ! i \<in> dom m" by blast
qed

lemma get_hike_recommendations_unfold:
  "get_hike_recommendations s baseline_hike n_hikes =
     (case loc (similarity_df s) baseline_hike of
        Inl e \<Rightarrow> (s, Inl e)
      | Inr sim_series \<Rightarrow>
          (case getitems (df_merged_index s) (argsort_rev_slice sim_series 1 (n_hikes + 1)) of
             Inl e \<Rightarrow> (s, Inl e)
           | Inr recs \<Rightarrow>
               print_recs (py_print s (header baseline_hike)) (df_merged_index s)
                 (zip (argsort_rev_slice sim_series 1 (n_hikes + 1)) recs)))"
  unfolding get_hike_recommendations_def header_def Let_def by (rule refl)

lemma get_user_recommendation_unfold:
  "get_user_recommendation s items n =
     (case get_user_profile s items of
        Inl e \<Rightarrow> (s, Inl e)
      | Inr user_prof \<Rightarrow>
          (case getitems (hikes s)
                  (argsort_rev_slice (map (\<lambda>row. cosine_similarity row user_prof) (X s))
                     (int (length items)) (n + int (length items))) of
             Inl e \<Rightarrow> (s, Inl e)
           | Inr recs \<Rightarrow>
               print_recs (py_print s (header (join '', '' items))) (hikes s)
                 (zip (argsort_rev_slice (map (\<lambda>row. cosine_similarity row user_prof) (X s))
                         (int (length items)) (n + int (length items)))
                      recs)))"
  unfolding get_user_recommendation_def header_def Let_def by (rule refl)

lemma get_hike_recommendations_ok:
  assumes "loc (similarity_df s) seed = Inr row"
    and "\<forall>i \<in> set (argsort_rev_slice row 1 (N + 1)).
           i < length (df_merged_index s) \<and> df_merged_index s ! i \<in> dom (hike_urls s)"
  shows "get_hike_recommendations s seed N =
           (s\<lparr> stdout := stdout s @ header seed #
                  map (rec_line s (df_merged_index s)) (argsort_rev_slice row 1 (N + 1)) \<rparr>,
            Inr ())"
  unfolding get_hike_recommendations_unfold assms(1) sum.case
  by (rule print_after_header [OF assms(2)])

lemma get_user_recommendation_ok:
  assumes "get_user_profile s items = Inr prof"
    and "\<forall>i \<in> set (argsort_rev_slice (map (\<lambda>row. cosine_similarity row prof) (X s))
                       (int (length items)) (n + int (length items))).
           i < length (hikes s) \<and> hikes s ! i \<in> dom (hike_urls s)"
  shows "get_user_recommendation s items n =
           (s\<lparr> stdout := stdout s @ header (join '', '' items) #
                  map (rec_line s (hikes s))
                    (argsort_rev_slice (map (\<lambda>row. cosine_similarity row prof) (X s))
                       (int (length items)) (n + int (length items))) \<rparr>,
            Inr ())"
  unfolding get_user_recommendation_unfold assms(1) sum.case
  by (rule print_after_header [OF assms(2)])

text \<open>
  C10. For an empty list of liked names \<open>_get_user_profile\<close> returns the zero vector of
  \<open>X.shape[1]\<close> entries, whose norm is 0, so the denominator of the cosine is 0 for every
  trail. \<open>get_user_recommendation\<close> does not reject the empty list: on a loaded state it
  prints the header and the first \<open>n\<close> trails of the ranking by similarity to the zero
  vector, and returns normally.
\<close>

theorem empty_profile_not_rejected:
  "get_user_profile s [] = Inr (replicate (X_shape1 s) 0)
   \<and> norm2 (replicate (X_shape1 s) 0) = 0
   \<and> (length (X s) = length (hikes s) \<and> set (hikes s) \<subseteq> dom (hike_urls s) \<and> 0 \<le> n \<longrightarrow>
        get_user_recommendation s [] n =
          (s\<lparr> stdout := stdout s @ header [] #
                 map (rec_line s (hikes s))
                   (take (nat n)
                      (rev (argsort (map (\<lambda>row. cosine_similarity row
                                                  (replicate (X_shape1 s) 0)) (X s))))) \<rparr>,
           Inr ()))"
proof (intro conjI impI)
  show p: "get_user_profile s [] = Inr (replicate (X_shape1 s) 0)"
    by (simp add: get_user_profile_def)
  show "norm2 (replicate (X_shape1 s) 0) = 0" by (rule norm2_zeros)
  assume a: "length (X s) = length (hikes s) \<and> set (hikes s) \<subseteq> dom (hike_urls s) \<and> 0 \<le> n"
  let ?v = "map (\<lambda>row. cosine_similarity row (replicate (X_shape1 s) 0)) (X s)"
  let ?idx = "take (nat n) (rev (argsort ?v))"
  have sl: "argsort_rev_slice ?v (int (length ([] :: string list))) (n + int (length ([] :: string list)))
            = ?idx"
    using a by (simp add: argsort_rev_slice_nonneg)
  have "set ?idx \<subseteq> {..<length ?v}"
    using set_rev_argsort_slice [of "nat n" 0 ?v] by simp
  with a have "set ?idx \<subseteq> {..<length (hikes s)}" by simp
  with a have "\<forall>i \<in> set ?idx. i < length (hikes s) \<and> hikes s ! i \<in> dom (hike_urls s)"
    by (intro idx_printable) simp_all
  then have "\<forall>i \<in> set (argsort_rev_slice ?v (int (length ([] :: string list)))
                           (n + int (length ([] :: string list)))).
               i < length (hikes s) \<and> hikes s ! i \<in> dom (hike_urls s)"
    by (simp only: sl)
  from get_user_recommendation_ok [OF p this]
  show "get_user_recommendation s [] n =
          (s\<lparr> stdout := stdout s @ header [] # map (rec_line s (hikes s)) ?idx \<rparr>, Inr ())"
    by (simp only: sl join.simps)
qed

lemma ex_zero_scores:
  "map (\<lambda>row. cosine_similarity row [0, 0]) (X ex_state) = [0, 0, 0, 0]"
  by (simp add: ex_state_def cosine_similarity_def dot_def norm2_def)

theorem empty_profile_not_rejected_witness:
  "length (X ex_state) = length (hikes ex_state)
   \<and> set (hikes ex_state) \<subseteq> dom (hike_urls ex_state) \<and> (0::int) \<le> 1
   \<and> get_user_profile ex_state [] = Inr [0, 0]
   \<and> get_user_recommendation ex_state [] 1 =
       (ex_state\<lparr> stdout := [header [], ''Mount Ida: u/ida''] \<rparr>, Inr ())"
proof -
  have a: "length (X ex_state) = length (hikes ex_state)"
    by (simp add: ex_state_def ex_names_def)
  have b: "set (hikes ex_state) \<subseteq> dom (hike_urls ex_state)"
    by (simp add: ex_state_def ex_names_def)
  have c: "(0::int) \<le> 1" by simp
  have as: "argsort [0, 0, 0, 0] = [0, 1, 2, 3]"
    by (simp add: argsort_def upt_rec)
  have l: "rec_line ex_state (hikes ex_state) 3 = ''Mount Ida: u/ida''"
    by (simp add: rec_line_def ex_state_def ex_names_def)
  have z: "replicate (X_shape1 ex_state) (0::real) = [0, 0]"
    by (simp add: ex_state_def numeral_2_eq_2)
  from empty_profile_not_rejected [of ex_state 1] a b c
  have "get_user_profile ex_state [] = Inr (replicate (X_shape1 ex_state) 0)"
    and "get_user_recommendation ex_state [] 1 =
          (ex_state\<lparr> stdout := stdout ex_state @ header [] #
                 map (rec_line ex_state (hikes ex_state))
                   (take (nat 1)
                      (rev (argsort (map (\<lambda>row. cosine_similarity row
                                (replicate (X_shape1 ex_state) 0)) (X ex_state))))) \<rparr>,
           Inr ())"
    by blast+
  then have "get_user_profile ex_state [] = Inr [0, 0]"
    and "get_user_recommendation ex_state [] 1 =
       (ex_state\<lparr> stdout := stdout ex_state @ [header [], ''Mount Ida: u/ida''] \<rparr>, Inr ())"
    by (simp_all add: ex_zero_scores as l z)
  moreover have "stdout ex_state = []" by (simp add: ex_state_def)
  ultimately show ?thesis using a b c by simp
qed

lemma tied_bear_peak:
  "loc (similarity_df tied_state) ''Bear Peak'' = Inr [1, 1, 1 / 2]"
  by (simp add: loc_def tied_state_def tied_names_def)

lemma argsort_tied_bear_peak: "argsort [1, 1, 1 / 2] = [2, 0, 1]"
  by (simp add: argsort_def upt_rec)

text \<open>
  C2 as stated fails. \<open>Royal Arch\<close> has the same features as the seed \<open>Bear Peak\<close>, so both
  have similarity 1 to the seed; the ranking puts \<open>Royal Arch\<close> first, the code drops that
  first position, and the one recommendation printed is the seed itself.
\<close>

theorem seed_recommended_to_itself:
  "get_hike_recommendations tied_state ''Bear Peak'' 1 =
     (tied_state\<lparr> stdout := [header ''Bear Peak'', ''Bear Peak: u/bear''] \<rparr>, Inr ())"
  by (simp add: get_hike_recommendations_unfold tied_bear_peak argsort_rev_slice_def
      argsort_tied_bear_peak py_slice_def)
    (simp add: tied_state_def tied_names_def py_print_def)

text \<open>
  C2, amended. On a loaded state (the similarity matrix square with distinct index
  labels, \<open>df_merged\<close> under the same index, a url for every name), for a seed in the index
  and a count \<open>0 \<le> N \<le> total - 1\<close>, \<open>get_hike_recommendations\<close> prints the header and
  exactly \<open>N\<close> lines \<open>name: url\<close>, for positions 1 to \<open>N\<close> of the ranking by similarity to the
  seed, so in order of non-increasing similarity and without repetition. It drops the
  top-ranked position, not the seed by name: the seed is absent from the output when its
  similarity to itself is strictly greater than that of every other trail.
\<close>

theorem seed_recommendations:
  assumes "distinct (sim_index (similarity_df s))"
    and "length (sim_values (similarity_df s)) = length (sim_index (similarity_df s))"
    and "\<forall>row \<in> set (sim_values (similarity_df s)).
           length row = length (sim_index (similarity_df s))"
    and "df_merged_index s = sim_index (similarity_df s)"
    and "set (sim_index (similarity_df s)) \<subseteq> dom (hike_urls s)"
    and "seed \<in> set (sim_index (similarity_df s))"
    and "0 \<le> N" and "N \<le> int (length (sim_index (similarity_df s))) - 1"
  shows "let names = sim_index (similarity_df s);
             row = sim_values (similarity_df s) ! position names seed;
             idx = take (nat N) (drop 1 (rev (argsort row)))
         in get_hike_recommendations s seed N =
              (s\<lparr> stdout := stdout s @ header seed # map (rec_line s names) idx \<rparr>, Inr ())
          \<and> length idx = nat N
          \<and> distinct idx
          \<and> set idx \<subseteq> {..<length names}
          \<and> (\<forall>p q. p < q \<and> q < length idx \<longrightarrow> row ! (idx ! q) \<le> row ! (idx ! p))
          \<and> ((\<forall>j < length names. j \<noteq> position names seed
                  \<longrightarrow> row ! j < row ! position names seed)
               \<longrightarrow> seed \<notin> set (map (\<lambda>i. names ! i) idx))"
proof -
  define names where "names = sim_index (similarity_df s)"
  define t where "t = position names seed"
  define row where "row = sim_values (similarity_df s) ! t"
  define idx where "idx = take (nat N) (drop 1 (rev (argsort row)))"
  note w = np_where_first [OF assms(6), folded names_def t_def]
  from assms(2) w(2) have "row \<in> set (sim_values (similarity_df s))"
    unfolding row_def names_def by (intro nth_mem) simp
  with assms(3) have len: "length row = length names" by (simp add: names_def)
  have l: "loc (similarity_df s) seed = Inr row"
    using loc_present [OF assms(1,2,6)] by (simp add: row_def t_def names_def)
  from assms(7) have sl: "argsort_rev_slice row 1 (N + 1) = idx"
    by (simp add: argsort_rev_slice_nonneg idx_def nat_add_distrib)
  have sub: "set idx \<subseteq> {..<length names}"
    using set_rev_argsort_slice [of "nat N" 1 row] by (simp add: idx_def len)
  with assms(5) have "\<forall>i \<in> set idx. i < length names \<and> names ! i \<in> dom (hike_urls s)"
    unfolding names_def by (intro idx_printable) simp_all
  then have "\<forall>i \<in> set (argsort_rev_slice row 1 (N + 1)).
      i < length (df_merged_index s) \<and> df_merged_index s ! i \<in> dom (hike_urls s)"
    by (simp only: sl assms(4) names_def)
  from get_hike_recommendations_ok [OF l this]
  have run: "get_hike_recommendations s seed N =
      (s\<lparr> stdout := stdout s @ header seed # map (rec_line s names) idx \<rparr>, Inr ())"
    by (simp only: sl assms(4) names_def)
  from assms(7,8) have "nat N \<le> length names - 1" by (simp add: names_def)
  then have n: "length idx = nat N"
    by (simp add: idx_def length_argsort len)
  have d: "distinct idx"
    by (simp add: idx_def distinct_argsort)
  have desc: "\<forall>p q. p < q \<and> q < length idx \<longrightarrow> row ! (idx ! q) \<le> row ! (idx ! p)"
    unfolding idx_def using ranking_descending [of _ _ "nat N" 1 row] by blast
  have top: "seed \<notin> set (map (\<lambda>i. names ! i) idx)"
    if strict: "\<forall>j < length names. j \<noteq> t \<longrightarrow> row ! j < row ! t"
  proof
    assume "seed \<in> set (map (\<lambda>i. names ! i) idx)"
    then obtain i where i: "i \<in> set idx" "names ! i = seed" by auto
    with sub have il: "i < length names" by auto
    from assms(1) have "distinct names" by (simp add: names_def)
    from nth_eq_iff_index_eq [OF this il w(2)] w(3) i(2) have "i = t" by simp
    with i(1) have "t \<in> set (drop 1 (rev (argsort row)))"
      unfolding idx_def by (auto dest: in_set_takeD)
    moreover from w(2) strict have "t \<notin> set (drop 1 (rev (argsort row)))"
      by (intro strict_top_first) (simp_all add: len)
    ultimately show False by simp
  qed
  from run n d sub desc top show ?thesis
    unfolding Let_def names_def [symmetric] t_def [symmetric] row_def [symmetric]
      idx_def [symmetric]
    by blast
qed


lemma ex_position: "position ex_names ''Bear Peak'' = 0" "position ex_names ''Royal Arch'' = 1"
  by (simp_all add: position_def np_where_def ex_names_def upt_rec)

lemma ex_argsort_bear_peak: "argsort [1, 0, 3 / 5, 4 / 5] = [1, 2, 3, 0]"
  by (simp add: argsort_def upt_rec)

lemma ex_rec_lines:
  "rec_line ex_state ex_names 0 = ''Bear Peak: u/bear''"
  "rec_line ex_state ex_names (Suc 0) = ''Royal Arch: u/arch''"
  "rec_line ex_state ex_names 2 = ''Blue Lake: u/lake''"
  "rec_line ex_state ex_names 3 = ''Mount Ida: u/ida''"
  by (simp_all add: rec_line_def ex_state_def ex_names_def)

theorem seed_recommendations_witness:
  "distinct (sim_index (similarity_df ex_state))
   \<and> length (sim_values (similarity_df ex_state)) = length (sim_index (similarity_df ex_state))
   \<and> list_all (\<lambda>row. length row = length (sim_index (similarity_df ex_state)))
         (sim_values (similarity_df ex_state))
   \<and> df_merged_index ex_state = sim_index (similarity_df ex_state)
   \<and> set (sim_index (similarity_df ex_state)) \<subseteq> dom (hike_urls ex_state)
   \<and> ''Bear Peak'' \<in> set (sim_index (similarity_df ex_state))
   \<and> (0::int) \<le> 2 \<and> 2 \<le> int (length (sim_index (similarity_df ex_state))) - 1
   \<and> get_hike_recommendations ex_state ''Bear Peak'' 2 =
        (ex_state\<lparr> stdout := [header ''Bear Peak'', ''Mount Ida: u/ida'', ''Blue Lake: u/lake''] \<rparr>,
         Inr ())"
proof -
  have h: "distinct (sim_index (similarity_df ex_state))"
    "length (sim_values (similarity_df ex_state)) = length (sim_index (similarity_df ex_state))"
    "\<forall>row \<in> set (sim_values (similarity_df ex_state)).
         length row = length (sim_index (similarity_df ex_state))"
    "df_merged_index ex_state = sim_index (similarity_df ex_state)"
    "set (sim_index (similarity_df ex_state)) \<subseteq> dom (hike_urls ex_state)"
    "''Bear Peak'' \<in> set (sim_index (similarity_df ex_state))"
    "(0::int) \<le> 2" "2 \<le> int (length (sim_index (similarity_df ex_state))) - 1"
    by (simp_all add: ex_state_def ex_names_def)
  have names: "sim_index (similarity_df ex_state) = ex_names"
    and row: "sim_values (similarity_df ex_state) ! 0 = [1, 0, 3 / 5, 4 / 5]"
    and out: "stdout ex_state = []"
    by (simp_all add: ex_state_def)
  from seed_recommendations [OF h]
  have "get_hike_recommendations ex_state ''Bear Peak'' 2 =
        (ex_state\<lparr> stdout := [header ''Bear Peak'', ''Mount Ida: u/ida'', ''Blue Lake: u/lake''] \<rparr>,
         Inr ())"
    by (simp add: Let_def names ex_position row ex_argsort_bear_peak ex_rec_lines out)
  with h show ?thesis unfolding list_all_iff by blast
qed

text \<open>
  C3. On a loaded state (\<open>X\<close> with one row of \<open>X.shape[1]\<close> entries for each name in
  \<open>hikes\<close>, a url for every name), for liked names that all occur in \<open>hikes\<close> and a count
  \<open>n \<ge> 0\<close>: \<open>_get_user_profile\<close> returns the elementwise sum of the liked trails' rows of
  \<open>X\<close>; the ranking lists every trail once, by non-increasing cosine similarity to that
  profile; and \<open>get_user_recommendation\<close> prints the header and the lines \<open>name: url\<close> of
  the ranking positions \<open>len(items)\<close> to \<open>len(items) + n - 1\<close>: it skips as many leading
  positions as there are liked names, whatever trails stand there.
\<close>

theorem profile_recommendations:
  assumes "set items \<subseteq> set (hikes s)"
    and "length (X s) = length (hikes s)"
    and "\<forall>row \<in> set (X s). length row = X_shape1 s"
    and "set (hikes s) \<subseteq> dom (hike_urls s)"
    and "0 \<le> n"
  shows "let profile = elementwise_sum (X_shape1 s)
                         (map (\<lambda>i. X s ! position (hikes s) i) items);
             scores = map (\<lambda>row. cosine_similarity row profile) (X s);
             ranking = rev (argsort scores);
             idx = take (nat n) (drop (length items) ranking)
         in get_user_profile s items = Inr profile
          \<and> distinct ranking
          \<and> set ranking = {..<length (hikes s)}
          \<and> (\<forall>p q. p < q \<and> q < length ranking
                \<longrightarrow> scores ! (ranking ! q) \<le> scores ! (ranking ! p))
          \<and> get_user_recommendation s items n =
              (s\<lparr> stdout := stdout s @ header (join '', '' items)
                                  # map (rec_line s (hikes s)) idx \<rparr>,
               Inr ())"
proof -
  define profile where
    "profile = elementwise_sum (X_shape1 s) (map (\<lambda>i. X s ! position (hikes s) i) items)"
  define scores where "scores = map (\<lambda>row. cosine_similarity row profile) (X s)"
  define ranking where "ranking = rev (argsort scores)"
  define idx where "idx = take (nat n) (drop (length items) ranking)"
  from assms(2) have "length (hikes s) \<le> length (X s)" by simp
  from get_user_profile_sum [OF assms(1) this assms(3)]
  have p: "get_user_profile s items = Inr profile" by (simp add: profile_def)
  have len: "length scores = length (hikes s)" by (simp add: scores_def assms(2))
  have d: "distinct ranking" by (simp add: ranking_def distinct_argsort)
  have st: "set ranking = {..<length (hikes s)}"
    by (simp add: ranking_def set_argsort len)
  have desc: "\<forall>p q. p < q \<and> q < length ranking
                \<longrightarrow> scores ! (ranking ! q) \<le> scores ! (ranking ! p)"
    using ranking_descending [of _ _ "length scores" 0 scores]
    by (simp add: ranking_def length_argsort)
  from assms(5) have sl: "argsort_rev_slice scores (int (length items)) (n + int (length items))
      = idx"
    by (simp add: argsort_rev_slice_nonneg idx_def ranking_def nat_add_distrib)
  have "set idx \<subseteq> {..<length (hikes s)}"
    using set_rev_argsort_slice [of "nat n" "length items" scores]
    by (simp add: idx_def ranking_def len)
  with assms(4) have "\<forall>i \<in> set idx. i < length (hikes s) \<and> hikes s ! i \<in> dom (hike_urls s)"
    by (intro idx_printable) simp_all
  then have "\<forall>i \<in> set (argsort_rev_slice (map (\<lambda>row. cosine_similarity row profile) (X s))
                       (int (length items)) (n + int (length items))).
           i < length (hikes s) \<and> hikes s ! i \<in> dom (hike_urls s)"
    by (simp only: sl scores_def [symmetric])
  from get_user_recommendation_ok [OF p this]
  have run: "get_user_recommendation s items n =
      (s\<lparr> stdout := stdout s @ header (join '', '' items) # map (rec_line s (hikes s)) idx \<rparr>,
       Inr ())"
    by (simp only: sl scores_def [symmetric])
  from p d st desc run show ?thesis
    unfolding Let_def profile_def [symmetric] scores_def [symmetric] ranking_def [symmetric]
      idx_def [symmetric]
    by blast
qed


lemma sqrt_squares: "sqrt 9 = 3" "sqrt 16 = 4" "sqrt 25 = 5"
  by (rule real_sqrt_unique, simp, simp)+

lemma ex_profile:
  "elementwise_sum (X_shape1 ex_state)
     (map (\<lambda>i. X ex_state ! position (hikes ex_state) i) [''Bear Peak'', ''Royal Arch''])
   = [3, 4]"
proof -
  have "hikes ex_state = ex_names" "X_shape1 ex_state = 2"
    "X ex_state ! 0 = [3, 0]" "X ex_state ! 1 = [0, 4]"
    by (simp_all add: ex_state_def)
  then show ?thesis
    by (simp add: elementwise_sum_def ex_position upt_rec)
qed

lemma ex_scores:
  "map (\<lambda>row. cosine_similarity row [3, 4]) (X ex_state) = [3 / 5, 4 / 5, 1, 24 / 25]"
  by (simp add: ex_state_def cosine_similarity_def dot_def norm2_def sqrt_squares)

lemma ex_argsort_profile: "argsort [3 / 5, 4 / 5, 1, 24 / 25] = [0, 1, 3, 2]"
  by (simp add: argsort_def upt_rec)

theorem profile_recommendations_witness:
  "set [''Bear Peak'', ''Royal Arch''] \<subseteq> set (hikes ex_state)
   \<and> length (X ex_state) = length (hikes ex_state)
   \<and> list_all (\<lambda>row. length row = X_shape1 ex_state) (X ex_state)
   \<and> set (hikes ex_state) \<subseteq> dom (hike_urls ex_state)
   \<and> (0::int) \<le> 2
   \<and> get_user_profile ex_state [''Bear Peak'', ''Royal Arch''] = Inr [3, 4]
   \<and> get_user_recommendation ex_state [''Bear Peak'', ''Royal Arch''] 2 =
        (ex_state\<lparr> stdout := [header ''Bear Peak, Royal Arch'',
                                ''Royal Arch: u/arch'', ''Bear Peak: u/bear''] \<rparr>,
         Inr ())"
proof -
  have h: "set [''Bear Peak'', ''Royal Arch''] \<subseteq> set (hikes ex_state)"
    "length (X ex_state) = length (hikes ex_state)"
    "\<forall>row \<in> set (X ex_state). length row = X_shape1 ex_state"
    "set (hikes ex_state) \<subseteq> dom (hike_urls ex_state)"
    "(0::int) \<le> 2"
    by (simp_all add: ex_state_def ex_names_def)
  have names: "hikes ex_state = ex_names" and out: "stdout ex_state = []"
    by (simp_all add: ex_state_def)
  note t = profile_recommendations [OF h, unfolded Let_def ex_profile ex_scores
      ex_argsort_profile]
  from t have "get_user_profile ex_state [''Bear Peak'', ''Royal Arch''] = Inr [3, 4]"
    by blast
  moreover from t have "get_user_recommendation ex_state [''Bear Peak'', ''Royal Arch''] 2 =
        (ex_state\<lparr> stdout := [header ''Bear Peak, Royal Arch'',
                                ''Royal Arch: u/arch'', ''Bear Peak: u/bear''] \<rparr>,
         Inr ())"
    by (simp add: names ex_rec_lines out)
  ultimately show ?thesis using h unfolding list_all_iff by blast
qed

end
